theory Spec2Isabelle
  imports Complex_Main "HOL-Library.Multiset"
begin

section \<open>Classification decision engine of \<open>src/src/one_shot_classifier.py\<close>\<close>

text \<open>
  The development embeds the keyword prefilter, the single-item function \<open>decide\<close> and the
  module-level DataLoader loop of \<open>one_shot_classifier.py\<close>.

  Conventions of the embedding.
  \<^item> Python floats are idealised as \<open>real\<close>: the thresholds, margins and weights are the
    decimal literals of the source read as exact rationals.
  \<^item> A text is a \<open>string\<close> (8-bit characters). Lower-casing, case-insensitive matching and
    the word-character test of \<open>\b\<close> are the ASCII ones, so the model is exact for ASCII
    text; the only non-ASCII character of the patterns, the en dash of \<open>stress[-\<dots>]strain\<close>,
    is written as its UTF-8 bytes.
  \<^item> The zero-shot pipeline \<open>clf\<close> is an external model: it is a parameter of every
    function that calls it, and it may raise (\<open>Inl\<close>).
  \<^item> Exceptions are values of \<open>py_error\<close>; every function that calls the scorer also returns
    the list of scorer calls it made.
\<close>

subsection \<open>Label taxonomy (lines 9-44)\<close>

type_synonym label = string

definition EN_DASH :: string where
  "EN_DASH = [CHR 0xE2, CHR 0x80, CHR 0x93]"

definition POSITIVE_LABELS :: "label list" where
  "POSITIVE_LABELS = [
     ''polymer molecular dynamics with force fields'',
     ''all-atom polymer molecular dynamics'',
     ''united-atom polymer molecular dynamics'',
     ''coarse-grained polymer MD (MARTINI)'',
     ''reactive polymer MD (ReaxFF)'',
     ''polymer melt or solution MD'',
     ''MD of polymer blends or copolymers'',
     ''polymer MD using LAMMPS or GROMACS'',
     ''polymer MD with OPLS/AMBER/CHARMM/COMPASS/DREIDING/PCFF/GROMOS/TraPPE'']"

definition PROPERTY_LABELS :: "label list" where
  "PROPERTY_LABELS = [
     ''polymer properties from MD (viscosity, diffusion, Tg)'',
     ''MD evaluation of polymer viscosity (rheology)'',
     ''MD estimation of polymer glass transition temperature (Tg)'',
     ''MD calculation of polymer diffusion or self-diffusion'',
     ''MD calculation of polymer mechanical properties (Young's modulus, stress'' @ EN_DASH @ ''strain)'',
     ''MD prediction of polymer density or radius of gyration'',
     ''MD calculation of polymer transport or permeability'']"

definition NEGATIVE_LABELS :: "label list" where
  "NEGATIVE_LABELS = [
     ''experimental polymer rheology (no simulation)'',
     ''polymer synthesis or characterization (no simulation)'',
     ''quantum chemistry or DFT (no MD)'',
     ''Monte Carlo simulations (not MD)'',
     ''dissipative particle dynamics (DPD) without atomistic force fields'',
     ''continuum modeling or FEM/CFD (no MD)'',
     ''biomolecular MD (proteins/DNA, not polymers)'',
     ''materials science unrelated to polymers'',
     ''machine learning predictions without MD simulation'',
     ''review article (survey)'']"

definition LABELS :: "label list" where
  "LABELS = POSITIVE_LABELS @ PROPERTY_LABELS @ NEGATIVE_LABELS"

subsection \<open>Strings and regular expressions (\<open>str.lower\<close>, \<open>in\<close>, \<open>re.search(p, text, re.I)\<close>)\<close>

definition lower_char :: "char \<Rightarrow> char" where
  "lower_char c =
     (case map_of (zip ''ABCDEFGHIJKLMNOPQRSTUVWXYZ'' ''abcdefghijklmnopqrstuvwxyz'') c of
        Some l \<Rightarrow> l
      | None \<Rightarrow> c)"

definition lower :: "string \<Rightarrow> string" where
  "lower s = map lower_char s"

fun startswith :: "string \<Rightarrow> string \<Rightarrow> bool" where
  "startswith s [] = True"
| "startswith [] (c # w) = False"
| "startswith (x # s) (c # w) = (x = c \<and> startswith s w)"

text \<open>\<open>py_in w s\<close> is Python's \<open>w in s\<close> on strings: \<open>w\<close> occurs in \<open>s\<close> as a substring.\<close>

fun py_in :: "string \<Rightarrow> string \<Rightarrow> bool" where
  "py_in w [] = (w = [])"
| "py_in w (x # s) = (startswith (x # s) w \<or> py_in w s)"

definition is_word_char :: "char \<Rightarrow> bool" where
  "is_word_char c =
     (c \<in> set ''abcdefghijklmnopqrstuvwxyzABCDEFGHIJKLMNOPQRSTUVWXYZ0123456789_'')"

text \<open>
  The fragment of regular expressions the pattern tables use: the empty pattern, a literal
  character, a character class \<open>[...]\<close>, the word boundary \<open>\b\<close>, concatenation, alternation
  \<open>a|b\<close> and the optional \<open>a?\<close>. There is no repetition, so matching is structural.
\<close>

datatype rx = Eps | Chr char | Cls "char list" | Wb | Cat rx rx | Alt rx rx | Opt rx

definition word_before :: "char option \<Rightarrow> bool" where
  "word_before p = (case p of None \<Rightarrow> False | Some c \<Rightarrow> is_word_char c)"

definition word_after :: "string \<Rightarrow> bool" where
  "word_after s = (case s of [] \<Rightarrow> False | c # _ \<Rightarrow> is_word_char c)"

text \<open>
  A position in the text is the character before it (if any) and the rest of the text.
  \<open>rx_match r pos\<close> lists the positions at which a match of \<open>r\<close> starting at \<open>pos\<close> can
  end; characters are compared ignoring case (\<open>re.I\<close>).
\<close>

fun rx_match :: "rx \<Rightarrow> char option \<times> string \<Rightarrow> (char option \<times> string) list" where
  "rx_match Eps pos = [pos]"
| "rx_match (Chr c) (p, s) =
     (case s of
        [] \<Rightarrow> []
      | x # xs \<Rightarrow> if lower_char x = lower_char c then [(Some x, xs)] else [])"
| "rx_match (Cls cs) (p, s) =
     (case s of
        [] \<Rightarrow> []
      | x # xs \<Rightarrow> if lower_char x \<in> set (map lower_char cs) then [(Some x, xs)] else [])"
| "rx_match Wb (p, s) = (if word_before p \<noteq> word_after s then [(p, s)] else [])"
| "rx_match (Cat a b) pos = concat (map (rx_match b) (rx_match a pos))"
| "rx_match (Alt a b) pos = rx_match a pos @ rx_match b pos"
| "rx_match (Opt a) pos = rx_match a pos @ [pos]"

fun search_from :: "rx \<Rightarrow> char option \<Rightarrow> string \<Rightarrow> bool" where
  "search_from r p [] = (rx_match r (p, []) \<noteq> [])"
| "search_from r p (x # xs) = (rx_match r (p, x # xs) \<noteq> [] \<or> search_from r (Some x) xs)"

text \<open>\<open>re_search_I r text\<close> is the truth value of \<open>re.search(r, text, re.I)\<close>.\<close>

definition re_search_I :: "rx \<Rightarrow> string \<Rightarrow> bool" where
  "re_search_I r text = search_from r None text"

definition lit :: "string \<Rightarrow> rx" where
  "lit s = foldr (\<lambda>c r. Cat (Chr c) r) s Eps"

definition seq :: "rx list \<Rightarrow> rx" where
  "seq rs = foldr Cat rs Eps"

subsection \<open>Keyword tables (lines 47-64)\<close>

definition MD_TERMS :: "rx list" where
  "MD_TERMS = [
     seq [Wb, lit ''molecular dynamics'', Wb],
     seq [Wb, lit ''MD'', Wb],
     seq [Wb, lit ''MD simulation'', Opt (lit ''s''), Wb],
     seq [Wb, lit ''LAMMPS'', Wb],
     seq [Wb, lit ''GROMACS'', Wb],
     seq [Wb, lit ''NAMD'', Wb]]"

definition FF_TERMS :: "rx list" where
  "FF_TERMS = [
     seq [Wb, lit ''force'', Cls ''- '', lit ''field'', Wb],
     seq [Wb, lit ''OPLS'', Wb],
     seq [Wb, lit ''AMBER'', Wb],
     seq [Wb, lit ''CHARMM'', Wb],
     seq [Wb, lit ''COMPASS'', Wb],
     seq [Wb, lit ''DREIDING'', Wb],
     seq [Wb, lit ''PCFF'', Wb],
     seq [Wb, lit ''GROMOS'', Wb],
     seq [Wb, lit ''TraPPE'', Wb],
     seq [Wb, lit ''MARTINI'', Wb],
     seq [Wb, lit ''ReaxFF'', Wb],
     seq [Wb, lit ''coarse'', Cls ''- '', lit ''grained'', Wb],
     seq [Wb, lit ''united'', Cls ''- '', lit ''atom'', Wb],
     seq [Wb, lit ''all'', Cls ''- '', lit ''atom'', Wb]]"

definition PROPERTY_TERMS :: "rx list" where
  "PROPERTY_TERMS = [
     seq [Wb, lit ''viscosit'', Alt (lit ''y'') (lit ''ies''), Wb],
     seq [Wb, lit ''rheolog'', Alt (lit ''y'') (lit ''ical''), Wb],
     seq [Wb, lit ''glass transition'', Wb],
     seq [Wb, lit ''Tg'', Wb],
     seq [Wb, lit ''diffus'', Alt (lit ''ion'') (lit ''ivity''), Wb],
     seq [Wb, lit ''self'', Cls ''- '', lit ''diffus'', Alt (lit ''ion'') (lit ''ivity''), Wb],
     seq [Wb, lit ''Young'', Opt (Chr (CHR 0x27)), lit ''s modulus'', Wb],
     seq [Wb, lit ''elastic modulus'', Wb],
     seq [Wb, lit ''stress'', Alt (Chr CHR ''-'') (lit EN_DASH), lit ''strain'', Wb],
     seq [Wb, lit ''density'', Wb],
     seq [Wb, lit ''radius of gyration'', Wb],
     seq [Wb, lit ''R'', Cls ''gG'', Wb],
     seq [Wb, lit ''permeabilit'', Alt (lit ''y'') (lit ''ies''), Wb],
     seq [Wb, lit ''transport'', Wb],
     seq [Wb, lit ''thermal conductivity'', Wb],
     seq [Wb, lit ''dielectric '', Alt (lit ''constant'') (lit ''permittivity''), Wb],
     seq [Wb, lit ''conductivity'', Wb]]"

subsection \<open>\<open>prefilter\<close> (lines 66-71)\<close>

definition prefilter :: "string \<Rightarrow> bool" where
  "prefilter text =
     (let t = lower text;
          has_poly = (py_in ''polymer'' t \<or> py_in ''polymeric'' t);
          md_hit = list_ex (\<lambda>p. re_search_I p text) MD_TERMS;
          ff_hit = list_ex (\<lambda>p. re_search_I p text) FF_TERMS
      in has_poly \<and> (md_hit \<or> ff_hit))"

subsection \<open>The scorer boundary and Python built-ins\<close>

datatype py_error = ScorerUnavailable | TypeError | ValueError | IndexError | FileNotFoundError

text \<open>
  One result of the pipeline: the dict with the keys \<open>"labels"\<close> and \<open>"scores"\<close>. The
  pipeline is called with one text (line 87) or with a list of texts (line 186) and answers
  with one dict or with a list of dicts.
\<close>

record clf_output =
  labels :: "label list"
  scores :: "real list"

datatype clf_input = Single string | Batch "string list"

datatype clf_result = One clf_output | Many "clf_output list"

type_synonym scorer = "clf_input \<Rightarrow> py_error + clf_result"

text \<open>
  A Python dict as an association list in insertion order: assigning to a key that is
  present replaces its value and keeps its place, a new key goes to the end.
\<close>

fun dict_set :: "('k \<times> 'v) list \<Rightarrow> 'k \<Rightarrow> 'v \<Rightarrow> ('k \<times> 'v) list" where
  "dict_set [] k v = [(k, v)]"
| "dict_set ((k', v') # d) k v =
     (if k' = k then (k', v) # d else (k', v') # dict_set d k v)"

definition py_dict :: "('k \<times> 'v) list \<Rightarrow> ('k \<times> 'v) list" where
  "py_dict kvs = foldl (\<lambda>d (k, v). dict_set d k v) [] kvs"

definition dict_get :: "('k \<times> 'v) list \<Rightarrow> 'k \<Rightarrow> 'v \<Rightarrow> 'v" where
  "dict_get d k dflt = (case map_of d k of None \<Rightarrow> dflt | Some v \<Rightarrow> v)"

text \<open>\<open>max\<close> of an iterable raises \<open>ValueError\<close> when it is empty.\<close>

definition py_max :: "real list \<Rightarrow> py_error + real" where
  "py_max xs = (case xs of [] \<Rightarrow> Inl ValueError | x # rest \<Rightarrow> Inr (foldl max x rest))"

text \<open>
  \<open>sorted(xs, key=key, reverse=True)\<close>: CPython reverses the list, sorts it stably in
  ascending order of the key and reverses the result.
\<close>

definition py_sorted_reverse :: "('a \<Rightarrow> 'b::linorder) \<Rightarrow> 'a list \<Rightarrow> 'a list" where
  "py_sorted_reverse key xs = rev (sort_key key (rev xs))"

subsection \<open>\<open>decide\<close> (lines 73-121)\<close>

record config =
  accept_threshold :: real
  accept_margin :: real
  priority_threshold :: real
  priority_margin :: real

definition default_config :: config where
  "default_config =
     \<lparr>accept_threshold = 0.70, accept_margin = 0.15,
      priority_threshold = 0.65, priority_margin = 0.10\<rparr>"

text \<open>
  The returned dict. The key \<open>"prop_keywords"\<close> is present in the dict of line 111 and
  absent from the dict of line 83, so the field is optional: \<open>None\<close> is an absent key.
  The field \<open>top_pairs\<close> is the key \<open>"top"\<close>.
\<close>

record decision =
  accept :: bool
  priority :: bool
  reason :: string
  score_pos :: real
  score_neg :: real
  score_prop :: real
  priority_score :: real
  prop_keywords :: "bool option"
  top_pairs :: "(label \<times> real) list"

text \<open>
  \<open>decide clf abstract_text cfg\<close> returns the scorer calls made and the outcome. A pipeline
  answer that is a list cannot be indexed by \<open>"labels"\<close>: \<open>TypeError\<close>.
\<close>

definition decide :: "scorer \<Rightarrow> string \<Rightarrow> config \<Rightarrow> clf_input list \<times> (py_error + decision)" where
  "decide clf abstract_text cfg =
     (if \<not> prefilter abstract_text then
        ([], Inr \<lparr>accept = False, priority = False, reason = ''fails keyword prefilter'',
                  score_pos = 0.0, score_neg = 0.0, score_prop = 0.0,
                  priority_score = 0.0, prop_keywords = None, top_pairs = []\<rparr>)
      else
        ([Single abstract_text],
         case clf (Single abstract_text) of
           Inl e \<Rightarrow> Inl e
         | Inr (Many outs) \<Rightarrow> Inl TypeError
         | Inr (One res) \<Rightarrow>
             (let score_map = py_dict (zip (labels res) (scores res)) in
              case py_max (map (\<lambda>k. dict_get score_map k 0.0) POSITIVE_LABELS) of
                Inl e \<Rightarrow> Inl e
              | Inr s_pos \<Rightarrow>
              case py_max (map (\<lambda>k. dict_get score_map k 0.0) NEGATIVE_LABELS) of
                Inl e \<Rightarrow> Inl e
              | Inr s_neg \<Rightarrow>
              case py_max (map (\<lambda>k. dict_get score_map k 0.0) PROPERTY_LABELS) of
                Inl e \<Rightarrow> Inl e
              | Inr s_prop \<Rightarrow>
             (let prop_kw = list_ex (\<lambda>p. re_search_I p abstract_text) PROPERTY_TERMS;
                  kw_boost = (if prop_kw then 0.05 else 0.0);
                  p_score = 0.7 * s_prop + 0.3 * s_pos + kw_boost;
                  top = take 6 (py_sorted_reverse snd score_map);
                  acc = (s_pos \<ge> accept_threshold cfg \<and> s_pos - s_neg \<ge> accept_margin cfg);
                  pri = (p_score \<ge> priority_threshold cfg
                         \<and> s_prop - s_neg \<ge> priority_margin cfg)
              in Inr \<lparr>accept = acc, priority = pri,
                      reason = (if acc then ''pos high & margin over neg''
                                else ''pos low or margin small''),
                      score_pos = s_pos, score_neg = s_neg, score_prop = s_prop,
                      priority_score = p_score, prop_keywords = Some prop_kw,
                      top_pairs = top\<rparr>))))"

subsection \<open>The DataLoader loop (lines 130-215)\<close>

definition BATCH_SIZE :: nat where
  "BATCH_SIZE = 16"

text \<open>
  The dataset is the list of \<open>(filename, text)\<close> items that \<open>AbstractFolder\<close> yields for the
  sorted files; reading the files is outside the model. With \<open>shuffle=False\<close> the loader
  yields consecutive chunks of \<open>BATCH_SIZE\<close> items, the last one possibly shorter.
\<close>

function loader :: "'a list \<Rightarrow> 'a list list" where
  "loader items =
     (if items = [] then [] else take BATCH_SIZE items # loader (drop BATCH_SIZE items))"
  by pat_completeness auto
termination
  by (relation "measure length") (auto simp: BATCH_SIZE_def)

definition collate_fn :: "(string \<times> string) list \<Rightarrow> string list \<times> string list" where
  "collate_fn batch = (map fst batch, map snd batch)"

datatype cell = CStr string | CBool bool

text \<open>
  The loop of lines 198-209 over \<open>enumerate(outputs)\<close>: the accept flag of each output is
  stored at the global index of its text. Indexing a list out of range raises
  \<open>IndexError\<close>.
\<close>

fun assign_accepts ::
  "nat list \<Rightarrow> (nat \<times> clf_output) list \<Rightarrow> bool list \<Rightarrow> py_error + bool list" where
  "assign_accepts to_run_indices [] accepts = Inr accepts"
| "assign_accepts to_run_indices ((local_idx, out) # rest) accepts =
     (let score_map = py_dict (zip (labels out) (scores out)) in
      case py_max (map (\<lambda>k. dict_get score_map k 0.0) POSITIVE_LABELS) of
        Inl e \<Rightarrow> Inl e
      | Inr s_pos \<Rightarrow>
      case py_max (map (\<lambda>k. dict_get score_map k 0.0) NEGATIVE_LABELS) of
        Inl e \<Rightarrow> Inl e
      | Inr s_neg \<Rightarrow>
      case py_max (map (\<lambda>k. dict_get score_map k 0.0) PROPERTY_LABELS) of
        Inl e \<Rightarrow> Inl e
      | Inr s_prop \<Rightarrow>
     (let acc = (s_pos \<ge> 0.70 \<and> s_pos - s_neg \<ge> 0.15) in
      if local_idx < length to_run_indices then
        (let global_idx = to_run_indices ! local_idx in
         if global_idx < length accepts
         then assign_accepts to_run_indices rest (accepts[global_idx := acc])
         else Inl IndexError)
      else Inl IndexError))"

text \<open>\<open>isinstance(outputs, dict)\<close>: a single dict is wrapped into a list (lines 194-195).\<close>

definition ensure_list :: "clf_result \<Rightarrow> clf_output list" where
  "ensure_list outputs = (case outputs of One d \<Rightarrow> [d] | Many ds \<Rightarrow> ds)"

text \<open>
  The body of the loop for one batch (lines 173-213): the scorer calls made, and either the
  exception that leaves the loop or the rows \<open>[fn, acc]\<close> written for the batch.
\<close>

definition process_batch ::
  "scorer \<Rightarrow> (string \<times> string) list \<Rightarrow> clf_input list \<times> (py_error + cell list list)" where
  "process_batch clf batch =
     (let (filenames, texts) = collate_fn batch;
          mask = map prefilter texts;
          accepts = replicate (length texts) False;
          to_run_indices = map fst (filter snd (enumerate 0 mask));
          emit = (\<lambda>accs. map (\<lambda>(fn, acc). [CStr fn, CBool acc]) (zip filenames accs))
      in if to_run_indices \<noteq> [] then
           (let run_texts = map (\<lambda>i. texts ! i) to_run_indices in
            ([Batch run_texts],
             case clf (Batch run_texts) of
               Inl e \<Rightarrow> Inl e
             | Inr outputs \<Rightarrow>
                 (case assign_accepts to_run_indices (enumerate 0 (ensure_list outputs)) accepts of
                    Inl e \<Rightarrow> Inl e
                  | Inr accepts' \<Rightarrow> Inr (emit accepts'))))
         else ([], Inr (emit accepts)))"

text \<open>
  The state of a run: the rows written to the CSV file so far and the scorer calls made so
  far. An exception ends the run; the rows already written stay in the file.
\<close>

record run_state =
  rows :: "cell list list"
  calls :: "clf_input list"

fun run_batches ::
  "scorer \<Rightarrow> (string \<times> string) list list \<Rightarrow> run_state \<Rightarrow> py_error option \<times> run_state" where
  "run_batches clf [] st = (None, st)"
| "run_batches clf (batch # later) st =
     (case process_batch clf batch of
        (cs, Inl e) \<Rightarrow> (Some e, st\<lparr>calls := calls st @ cs\<rparr>)
      | (cs, Inr rs) \<Rightarrow>
          run_batches clf later (st\<lparr>rows := rows st @ rs, calls := calls st @ cs\<rparr>))"

text \<open>
  The script: no \<open>.txt\<close> file raises \<open>FileNotFoundError\<close> before the CSV file is opened
  (line 139); otherwise the header row is written and the batches are processed in order.
\<close>

definition batch_runner ::
  "scorer \<Rightarrow> (string \<times> string) list \<Rightarrow> py_error option \<times> run_state" where
  "batch_runner clf files =
     (if files = [] then (Some FileNotFoundError, \<lparr>rows = [], calls = []\<rparr>)
      else run_batches clf (loader files)
             \<lparr>rows = [[CStr ''filename'', CStr ''accept'']], calls = []\<rparr>)"

subsection \<open>Closed forms of the source expressions\<close>

text \<open>
  Names for expressions that occur in \<open>decide\<close> and again in the loop: the dict of line 93
  (and 199), the maximum of a label group (lines 95-97 and 200-202), the keyword test of
  line 100, and the dict that \<open>decide\<close> returns at line 111.
\<close>

definition score_map_of :: "clf_output \<Rightarrow> (label \<times> real) list" where
  "score_map_of res = py_dict (zip (labels res) (scores res))"

definition group_max :: "clf_output \<Rightarrow> label list \<Rightarrow> real" where
  "group_max res L = Max ((\<lambda>k. dict_get (score_map_of res) k 0) ` set L)"

definition prop_kw_of :: "string \<Rightarrow> bool" where
  "prop_kw_of text = list_ex (\<lambda>p. re_search_I p text) PROPERTY_TERMS"

definition scored_decision :: "clf_output \<Rightarrow> string \<Rightarrow> config \<Rightarrow> decision" where
  "scored_decision res text cfg =
     (let s_pos = group_max res POSITIVE_LABELS;
          s_neg = group_max res NEGATIVE_LABELS;
          s_prop = group_max res PROPERTY_LABELS;
          p_score = 0.7 * s_prop + 0.3 * s_pos + (if prop_kw_of text then 0.05 else 0);
          acc = (s_pos \<ge> accept_threshold cfg \<and> s_pos - s_neg \<ge> accept_margin cfg)
      in \<lparr>accept = acc,
          priority = (p_score \<ge> priority_threshold cfg
                      \<and> s_prop - s_neg \<ge> priority_margin cfg),
          reason = (if acc then ''pos high & margin over neg'' else ''pos low or margin small''),
          score_pos = s_pos, score_neg = s_neg, score_prop = s_prop,
          priority_score = p_score, prop_keywords = Some (prop_kw_of text),
          top_pairs = take 6 (py_sorted_reverse snd (score_map_of res))\<rparr>)"

subsection \<open>Notions of the specification\<close>

text \<open>
  A ScoreMap has one score per label of the full label set; \<open>score_of res l\<close> is its entry
  for the label \<open>l\<close>, and \<open>spec_max sm G\<close> is \<open>max(sm[l] for l in G)\<close>.
\<close>

definition one_score_per_label :: "clf_output \<Rightarrow> bool" where
  "one_score_per_label res =
     (distinct (labels res) \<and> length (scores res) = length (labels res)
      \<and> set LABELS \<subseteq> set (labels res))"

definition score_of :: "clf_output \<Rightarrow> label \<Rightarrow> real" where
  "score_of res l = the (map_of (zip (labels res) (scores res)) l)"

definition spec_max :: "(label \<Rightarrow> real) \<Rightarrow> label list \<Rightarrow> real" where
  "spec_max sm G = Max (sm ` set G)"

definition matches_property_term :: "string \<Rightarrow> bool" where
  "matches_property_term text = (\<exists>p \<in> set PROPERTY_TERMS. re_search_I p text)"

text \<open>The text contains the token \<open>w\<close>, upper and lower case not distinguished.\<close>

definition contains_ci :: "string \<Rightarrow> string \<Rightarrow> bool" where
  "contains_ci w text = (\<exists>pre mid post. text = pre @ mid @ post \<and> lower mid = lower w)"

subsection \<open>Concrete scorers\<close>

text \<open>
  A scorer that answers every text with the full label sequence and the score \<open>p\<close> for each
  Positive label, \<open>q\<close> for each Property label and \<open>n\<close> for each Negative label, in both
  call patterns.
\<close>

definition group_scores :: "real \<Rightarrow> real \<Rightarrow> real \<Rightarrow> clf_output" where
  "group_scores p q n =
     \<lparr>labels = LABELS,
      scores = map (\<lambda>_. p) POSITIVE_LABELS @ map (\<lambda>_. q) PROPERTY_LABELS
               @ map (\<lambda>_. n) NEGATIVE_LABELS\<rparr>"

definition uniform_scorer :: "real \<Rightarrow> real \<Rightarrow> real \<Rightarrow> scorer" where
  "uniform_scorer p q n inp =
     (case inp of
        Single t \<Rightarrow> Inr (One (group_scores p q n))
      | Batch ts \<Rightarrow> Inr (Many (map (\<lambda>t. group_scores p q n) ts)))"

subsection \<open>The top diagnostics as the specification words them\<close>

text \<open>
  The six highest-scoring pairs over the full label set, descending, ties in the order of
  the taxonomy: a stable descending sort of the pairs listed in the order of \<open>LABELS\<close>.
\<close>

definition spec_top :: "clf_output \<Rightarrow> (label \<times> real) list" where
  "spec_top res = take 6 (sort_key (\<lambda>x. - snd x) (map (\<lambda>l. (l, score_of res l)) LABELS))"

text \<open>
  A scorer whose answer lists the labels in the reverse order of the taxonomy, each with the
  score 1.
\<close>

definition tie_scores :: clf_output where
  "tie_scores = \<lparr>labels = rev LABELS, scores = map (\<lambda>_. 1) LABELS\<rparr>"

definition tie_scorer :: scorer where
  "tie_scorer inp =
     (case inp of
        Single t \<Rightarrow> Inr (One tie_scores)
      | Batch ts \<Rightarrow> Inr (Many (map (\<lambda>t. tie_scores) ts)))"

subsection \<open>Notions for the batch loop\<close>

text \<open>
  The accept test of line 206, with its constants 0.70 and 0.15, on one output of the
  pipeline.
\<close>

definition batch_accept :: "clf_output \<Rightarrow> bool" where
  "batch_accept out =
     (group_max out POSITIVE_LABELS \<ge> 0.70
      \<and> group_max out POSITIVE_LABELS - group_max out NEGATIVE_LABELS \<ge> 0.15)"

text \<open>
  The scorer answers every call, and both call patterns give the same output for the same
  text: \<open>score t\<close> is the output for \<open>t\<close>.
\<close>

definition consistent_scorer :: "scorer \<Rightarrow> (string \<Rightarrow> clf_output) \<Rightarrow> bool" where
  "consistent_scorer clf score =
     ((\<forall>t. clf (Single t) = Inr (One (score t)))
      \<and> (\<forall>ts. ts \<noteq> [] \<longrightarrow> (\<exists>r. clf (Batch ts) = Inr r \<and> ensure_list r = map score ts)))"

text \<open>
  \<open>row_for item row\<close>: the CSV row is the record of the input item: its identifier and an
  accept flag, which is False when the prefilter rejects the item's text.
\<close>

definition row_for :: "string \<times> string \<Rightarrow> cell list \<Rightarrow> bool" where
  "row_for item row =
     (case row of
        [CStr fn, CBool a] \<Rightarrow> fn = fst item \<and> (prefilter (snd item) \<or> a = False)
      | _ \<Rightarrow> False)"

text \<open>The row the loop writes for an item when the scorer is consistent.\<close>

definition single_row :: "(string \<Rightarrow> clf_output) \<Rightarrow> string \<times> string \<Rightarrow> cell list" where
  "single_row score item =
     [CStr (fst item), CBool (prefilter (snd item) \<and> batch_accept (score (snd item)))]"

text \<open>
  A scorer that fails on the text \<open>bad\<close>, and on every batch that contains it, and answers
  every other call.
\<close>

definition flaky_scorer :: "string \<Rightarrow> scorer" where
  "flaky_scorer bad inp =
     (case inp of
        Single t \<Rightarrow>
          if t = bad then Inl ScorerUnavailable else Inr (One (group_scores 0.9 0.8 0.1))
      | Batch ts \<Rightarrow>
          if bad \<in> set ts then Inl ScorerUnavailable
          else Inr (Many (map (\<lambda>t. group_scores 0.9 0.8 0.1) ts)))"

section \<open>Basic facts\<close>

subsection \<open>Built-ins\<close>

lemma foldl_max_Max: "foldl max (x::real) xs = Max (set (x # xs))"
proof -
  have "(\<lambda>a s. max s a) = (max :: real \<Rightarrow> real \<Rightarrow> real)"
    by (intro ext) (rule max.commute)
  then have "foldl max x xs = fold max xs x"
    by (simp add: foldl_conv_fold)
  then show ?thesis
    by (simp only: Max.set_eq_fold)
qed

lemma py_max_nonempty: "xs \<noteq> [] \<Longrightarrow> py_max xs = Inr (Max (set xs))"
  by (cases xs) (simp_all add: py_max_def foldl_max_Max del: Max_insert set_simps)

lemma POSITIVE_LABELS_nonempty: "POSITIVE_LABELS \<noteq> []"
  by (simp add: POSITIVE_LABELS_def)
lemma NEGATIVE_LABELS_nonempty: "NEGATIVE_LABELS \<noteq> []"
  by (simp add: NEGATIVE_LABELS_def)
lemma PROPERTY_LABELS_nonempty: "PROPERTY_LABELS \<noteq> []"
  by (simp add: PROPERTY_LABELS_def)

lemma py_max_group:
  "L \<noteq> [] \<Longrightarrow> py_max (map f L) = Inr (Max (f ` set L))"
  by (simp add: py_max_nonempty)

lemma map_of_dict_set: "map_of (dict_set d k v) = (map_of d)(k \<mapsto> v)"
  by (induction d k v rule: dict_set.induct) auto

lemma map_of_foldl_dict_set:
  "map_of (foldl (\<lambda>d (k, v). dict_set d k v) d kvs) = map_of d ++ map_of (rev kvs)"
proof (induction kvs arbitrary: d)
  case Nil
  show ?case by simp
next
  case (Cons kv kvs)
  obtain k v where kv: "kv = (k, v)" by (cases kv)
  have "map_of (foldl (\<lambda>d (k, v). dict_set d k v) d (kv # kvs))
        = map_of (dict_set d k v) ++ map_of (rev kvs)"
    using Cons.IH [of "dict_set d k v"] by (simp add: kv)
  also have "\<dots> = map_of d ++ map_of (rev (kv # kvs))"
    by (simp add: map_of_dict_set kv map_add_upd_left fun_eq_iff map_add_def split: option.splits)
  finally show ?case .
qed

lemma map_of_py_dict: "map_of (py_dict kvs) = map_of (rev kvs)"
  by (simp add: py_dict_def map_of_foldl_dict_set)

lemma map_of_rev_distinct: "distinct (map fst kvs) \<Longrightarrow> map_of (rev kvs) = map_of kvs"
  by (rule map_of_inject_set[THEN iffD2]) (simp_all add: rev_map[symmetric])

lemma dict_set_fresh: "k \<notin> fst ` set d \<Longrightarrow> dict_set d k v = d @ [(k, v)]"
  by (induction d k v rule: dict_set.induct) auto

lemma foldl_dict_set_distinct:
  "distinct (map fst (d @ kvs)) \<Longrightarrow> foldl (\<lambda>d (k, v). dict_set d k v) d kvs = d @ kvs"
proof (induction kvs arbitrary: d)
  case Nil
  show ?case by simp
next
  case (Cons kv kvs)
  obtain k v where kv: "kv = (k, v)" by (cases kv)
  from Cons.prems have fresh: "k \<notin> fst ` set d" by (auto simp: kv)
  from Cons.prems have "distinct (map fst ((d @ [(k, v)]) @ kvs))" by (simp add: kv)
  from Cons.IH [OF this] show ?case by (simp add: kv dict_set_fresh [OF fresh])
qed

lemma py_dict_distinct: "distinct (map fst kvs) \<Longrightarrow> py_dict kvs = kvs"
  using foldl_dict_set_distinct [of "[]" kvs] by (simp add: py_dict_def)

subsection \<open>The outcomes of \<open>decide\<close>\<close>

lemma decide_reject:
  "\<not> prefilter text \<Longrightarrow>
   decide clf text cfg =
     ([], Inr \<lparr>accept = False, priority = False, reason = ''fails keyword prefilter'',
               score_pos = 0, score_neg = 0, score_prop = 0, priority_score = 0,
               prop_keywords = None, top_pairs = []\<rparr>)"
  by (simp add: decide_def)

lemma decide_scored:
  assumes "prefilter text" and "clf (Single text) = Inr (One res)"
  shows "decide clf text cfg = ([Single text], Inr (scored_decision res text cfg))"
  using assms
  by (simp add: decide_def scored_decision_def group_max_def score_map_of_def prop_kw_of_def
      py_max_group POSITIVE_LABELS_nonempty NEGATIVE_LABELS_nonempty PROPERTY_LABELS_nonempty
      Let_def)

lemma decide_error:
  assumes "prefilter text" and "clf (Single text) = Inl e"
  shows "decide clf text cfg = ([Single text], Inl e)"
  using assms by (simp add: decide_def)

lemma decide_many:
  assumes "prefilter text" and "clf (Single text) = Inr (Many outs)"
  shows "decide clf text cfg = ([Single text], Inl TypeError)"
  using assms by (simp add: decide_def)

lemma decide_cases:
  obtains (reject) "\<not> prefilter t"
  | (scored) res where "prefilter t" "clf (Single t) = Inr (One res)"
  | (many) outs where "prefilter t" "clf (Single t) = Inr (Many outs)"
  | (error) e where "prefilter t" "clf (Single t) = Inl e"
proof (cases "prefilter t")
  case False
  then show ?thesis by (rule reject)
next
  case True
  show ?thesis
  proof (cases "clf (Single t)")
    case (Inl e)
    with True show ?thesis by (rule error)
  next
    case (Inr r)
    show ?thesis
    proof (cases r)
      case (One res)
      with True Inr show ?thesis by (auto intro: scored)
    next
      case (Many outs)
      with True Inr show ?thesis by (auto intro: many)
    qed
  qed
qed

subsection \<open>The concrete scorers\<close>

lemmas label_defs = LABELS_def POSITIVE_LABELS_def PROPERTY_LABELS_def NEGATIVE_LABELS_def EN_DASH_def

lemma distinct_LABELS: "distinct LABELS"
  by (simp add: label_defs)

lemma score_map_of_group_scores:
  "score_map_of (group_scores p q n) = zip (labels (group_scores p q n)) (scores (group_scores p q n))"
proof -
  have "length (scores (group_scores p q n)) = length (labels (group_scores p q n))"
    by (simp add: group_scores_def LABELS_def)
  then have "map fst (zip (labels (group_scores p q n)) (scores (group_scores p q n))) = LABELS"
    by (simp add: group_scores_def)
  then show ?thesis
    unfolding score_map_of_def by (intro py_dict_distinct) (simp add: distinct_LABELS)
qed

lemma group_max_pos: "group_max (group_scores p q n) POSITIVE_LABELS = p"
  unfolding group_max_def score_map_of_group_scores
  by (simp add: group_scores_def label_defs dict_get_def)

lemma group_max_prop: "group_max (group_scores p q n) PROPERTY_LABELS = q"
  unfolding group_max_def score_map_of_group_scores
  by (simp add: group_scores_def label_defs dict_get_def)

lemma group_max_neg: "group_max (group_scores p q n) NEGATIVE_LABELS = n"
  unfolding group_max_def score_map_of_group_scores
  by (simp add: group_scores_def label_defs dict_get_def)

subsection \<open>Specification notions against the code\<close>

lemma prop_kw_of_iff: "prop_kw_of text = matches_property_term text"
  by (simp add: prop_kw_of_def matches_property_term_def list_ex_iff)

lemma dict_get_score_of:
  assumes "one_score_per_label res" and "l \<in> set LABELS"
  shows "dict_get (score_map_of res) l 0 = score_of res l"
proof -
  from assms have d: "distinct (map fst (zip (labels res) (scores res)))"
    and len: "length (scores res) = length (labels res)" and l: "l \<in> set (labels res)"
    by (auto simp: one_score_per_label_def)
  from d have "score_map_of res = zip (labels res) (scores res)"
    unfolding score_map_of_def by (rule py_dict_distinct)
  moreover from l len have "l \<in> dom (map_of (zip (labels res) (scores res)))"
    by (simp add: dom_map_of_zip)
  ultimately show ?thesis
    by (auto simp: dict_get_def score_of_def)
qed

lemma group_max_spec_max:
  assumes "one_score_per_label res" and "set G \<subseteq> set LABELS"
  shows "group_max res G = spec_max (score_of res) G"
proof -
  have "(\<lambda>k. dict_get (score_map_of res) k 0) ` set G = score_of res ` set G"
    using assms by (intro image_cong refl dict_get_score_of) auto
  then show ?thesis by (simp add: group_max_def spec_max_def)
qed

lemma groups_in_LABELS:
  "set POSITIVE_LABELS \<subseteq> set LABELS" "set PROPERTY_LABELS \<subseteq> set LABELS"
  "set NEGATIVE_LABELS \<subseteq> set LABELS"
  by (auto simp: LABELS_def)

lemmas rx_eval = re_search_I_def seq_def lit_def lower_char_def word_before_def
  word_after_def is_word_char_def lower_def

lemma prefilter_polymer_MD: "prefilter ''polymer MD''"
  by (simp add: prefilter_def MD_TERMS_def FF_TERMS_def rx_eval)

lemma one_score_per_label_group_scores: "one_score_per_label (group_scores p q n)"
  by (simp add: one_score_per_label_def group_scores_def distinct_LABELS) (simp add: LABELS_def)

subsection \<open>The matcher on small inputs\<close>

text \<open>
  The word boundary keeps "MD" from matching inside "MDMA", matching ignores case, and the
  optional and the character class behave as in \<open>re\<close>; the empty text fails the prefilter.
\<close>

lemma MD_not_inside_MDMA: "\<not> re_search_I (seq [Wb, lit ''MD'', Wb]) ''MDMA''"
  by (simp add: rx_eval)

lemma MD_ignores_case: "re_search_I (seq [Wb, lit ''MD'', Wb]) ''an md run''"
  by (simp add: rx_eval)

lemma force_field_hyphen_or_space:
  "re_search_I (seq [Wb, lit ''force'', Cls ''- '', lit ''field'', Wb]) ''Force-Field''"
  "re_search_I (seq [Wb, lit ''force'', Cls ''- '', lit ''field'', Wb]) ''force field''"
  "\<not> re_search_I (seq [Wb, lit ''force'', Cls ''- '', lit ''field'', Wb]) ''forcefield''"
  by (simp_all add: rx_eval)

lemma optional_plural:
  "re_search_I (seq [Wb, lit ''MD simulation'', Opt (lit ''s''), Wb]) ''MD simulations''"
  "\<not> re_search_I (seq [Wb, lit ''MD simulation'', Opt (lit ''s''), Wb]) ''MD simulationx''"
  by (simp_all add: rx_eval)

lemma prefilter_empty_text: "\<not> prefilter []"
  by (simp add: prefilter_def lower_def)

subsection \<open>Substring search and the polymer test\<close>

lemma startswith_iff: "startswith s w \<longleftrightarrow> (\<exists>post. s = w @ post)"
  by (induction s w rule: startswith.induct) auto

lemma py_in_iff: "py_in w s \<longleftrightarrow> (\<exists>pre post. s = pre @ w @ post)"
proof (induction s)
  case Nil
  show ?case by simp
next
  case (Cons x s)
  have "(\<exists>pre post. x # s = pre @ w @ post)
        \<longleftrightarrow> (\<exists>post. x # s = w @ post) \<or> (\<exists>pre post. s = pre @ w @ post)"
  proof
    assume "\<exists>pre post. x # s = pre @ w @ post"
    then obtain pre post where eq: "x # s = pre @ w @ post" by blast
    show "(\<exists>post. x # s = w @ post) \<or> (\<exists>pre post. s = pre @ w @ post)"
    proof (cases pre)
      case Nil
      with eq show ?thesis by auto
    next
      case (Cons y pre')
      with eq have "s = pre' @ w @ post" by simp
      then show ?thesis by blast
    qed
  next
    assume "(\<exists>post. x # s = w @ post) \<or> (\<exists>pre post. s = pre @ w @ post)"
    then show "\<exists>pre post. x # s = pre @ w @ post"
    proof
      assume "\<exists>post. x # s = w @ post"
      then obtain post where "x # s = [] @ w @ post" by auto
      then show ?thesis by blast
    next
      assume "\<exists>pre post. s = pre @ w @ post"
      then obtain pre post where "x # s = (x # pre) @ w @ post" by auto
      then show ?thesis by blast
    qed
  qed
  with Cons.IH show ?case by (simp add: startswith_iff)
qed

lemma contains_ci_iff: "contains_ci w text \<longleftrightarrow> py_in (lower w) (lower text)"
proof
  assume "contains_ci w text"
  then obtain pre mid post where "text = pre @ mid @ post" "lower mid = lower w"
    by (auto simp: contains_ci_def)
  then have "lower text = lower pre @ lower w @ lower post"
    by (simp add: lower_def)
  then show "py_in (lower w) (lower text)"
    unfolding py_in_iff by blast
next
  assume "py_in (lower w) (lower text)"
  then obtain a c where "map lower_char text = a @ lower w @ c"
    unfolding py_in_iff lower_def by blast
  then obtain pre rest where t1: "text = pre @ rest" and t2: "map lower_char rest = lower w @ c"
    by (metis map_eq_append_conv)
  from t2 obtain mid post where t3: "rest = mid @ post" and t4: "map lower_char mid = lower w"
    by (metis map_eq_append_conv)
  from t1 t3 t4 have "text = pre @ mid @ post \<and> lower mid = lower w"
    by (simp add: lower_def)
  then show "contains_ci w text"
    unfolding contains_ci_def by blast
qed

lemma prefilter_needs_polymer:
  assumes "\<not> py_in ''polymer'' (lower text)" and "\<not> py_in ''polymeric'' (lower text)"
  shows "\<not> prefilter text"
  using assms by (simp add: prefilter_def Let_def)

lemma lower_polymer: "lower ''polymer'' = ''polymer''" "lower ''polymeric'' = ''polymeric''"
  by (simp_all add: lower_def lower_char_def)

lemma no_polymer_in_polyester:
  "\<not> py_in ''polymer'' (lower ''Synthesis and DSC characterization of a new polyester'')"
  "\<not> py_in ''polymeric'' (lower ''Synthesis and DSC characterization of a new polyester'')"
  by (simp_all add: lower_def lower_char_def)

lemma no_polymer_in_water:
  "\<not> py_in ''polymer'' (lower ''MD of water'')"
  "\<not> py_in ''polymeric'' (lower ''MD of water'')"
  by (simp_all add: lower_def lower_char_def)


subsection \<open>Decisions under a uniform scorer; the accept rule\<close>

lemma decide_uniform:
  "prefilter text \<Longrightarrow>
   decide (uniform_scorer p q n) text cfg
     = ([Single text], Inr (scored_decision (group_scores p q n) text cfg))"
  by (rule decide_scored) (simp_all add: uniform_scorer_def)

lemma scored_group_fields:
  "score_pos (scored_decision (group_scores p q n) text cfg) = p"
  "score_neg (scored_decision (group_scores p q n) text cfg) = n"
  "score_prop (scored_decision (group_scores p q n) text cfg) = q"
  "prop_keywords (scored_decision (group_scores p q n) text cfg) = Some (prop_kw_of text)"
  "priority_score (scored_decision (group_scores p q n) text cfg)
     = 0.7 * q + 0.3 * p + (if prop_kw_of text then 0.05 else 0)"
  "accept (scored_decision (group_scores p q n) text cfg)
     = (p \<ge> accept_threshold cfg \<and> p - n \<ge> accept_margin cfg)"
  "priority (scored_decision (group_scores p q n) text cfg)
     = (0.7 * q + 0.3 * p + (if prop_kw_of text then 0.05 else 0) \<ge> priority_threshold cfg
        \<and> q - n \<ge> priority_margin cfg)"
  by (simp_all add: scored_decision_def Let_def group_max_pos group_max_neg group_max_prop)

lemma decide_accept_rule:
  assumes "decide clf text cfg = (cs, Inr d)" and "prefilter text"
  shows "accept d = (score_pos d \<ge> accept_threshold cfg
                     \<and> score_pos d - score_neg d \<ge> accept_margin cfg)"
proof (cases rule: decide_cases [where t = "text" and clf = clf])
  case reject
  with assms(2) show ?thesis by simp
next
  case (scored res)
  from decide_scored [where clf = clf and cfg = cfg, OF scored] assms(1)
  have "d = scored_decision res text cfg" by simp
  then show ?thesis by (simp add: scored_decision_def Let_def)
next
  case (many outs)
  from decide_many [where clf = clf and cfg = cfg, OF many] assms(1) show ?thesis by simp
next
  case (error e)
  from decide_error [where clf = clf and cfg = cfg, OF error] assms(1) show ?thesis by simp
qed

subsection \<open>Rejected texts, failures and the range of the scores\<close>

lemma prefilter_polyester:
  "\<not> prefilter ''Synthesis and DSC characterization of a new polyester''"
  by (rule prefilter_needs_polymer) (rule no_polymer_in_polyester)+

lemma decide_isl:
  "isl (snd (decide clf t cfg)) = (prefilter t \<and> (\<forall>res. clf (Single t) \<noteq> Inr (One res)))"
proof (cases rule: decide_cases [where t = t and clf = clf])
  case reject
  then show ?thesis by (simp add: decide_reject)
next
  case (scored res)
  from decide_scored [where clf = clf and cfg = cfg, OF scored] scored show ?thesis by simp
next
  case (many outs)
  from decide_many [where clf = clf and cfg = cfg, OF many] many show ?thesis by simp
next
  case (error e)
  from decide_error [where clf = clf and cfg = cfg, OF error] error show ?thesis by simp
qed

lemma dict_get_range:
  assumes "set (scores res) \<subseteq> {0..1}"
  shows "0 \<le> dict_get (score_map_of res) k 0 \<and> dict_get (score_map_of res) k 0 \<le> 1"
proof (cases "map_of (score_map_of res) k")
  case None
  then show ?thesis by (simp add: dict_get_def)
next
  case (Some v)
  then have "map_of (rev (zip (labels res) (scores res))) k = Some v"
    by (simp add: score_map_of_def map_of_py_dict)
  then have "(k, v) \<in> set (zip (labels res) (scores res))"
    by (auto dest: map_of_SomeD)
  then have "v \<in> set (scores res)"
    by (rule set_zip_rightD)
  with assms Some show ?thesis
    by (auto simp: dict_get_def)
qed

lemma group_max_range:
  assumes "set (scores res) \<subseteq> {0..1}" and "L \<noteq> []"
  shows "0 \<le> group_max res L \<and> group_max res L \<le> 1"
proof -
  let ?S = "(\<lambda>k. dict_get (score_map_of res) k 0) ` set L"
  have fin: "finite ?S" and ne: "?S \<noteq> {}"
    using assms(2) by simp_all
  from Max_in [OF fin ne] obtain k where "Max ?S = dict_get (score_map_of res) k 0"
    by auto
  with dict_get_range [OF assms(1), of k] show ?thesis
    by (simp add: group_max_def)
qed

lemma priority_score_bounds:
  assumes "decide clf t cfg = (cs, Inr d)" and "clf (Single t) = Inr (One res)"
    and "set (scores res) \<subseteq> {0..1}"
  shows "0 \<le> priority_score d \<and> priority_score d \<le> 1.05"
proof (cases "prefilter t")
  case False
  from decide_reject [OF False, of clf cfg] assms(1) show ?thesis by auto
next
  case True
  from decide_scored [where clf = clf and cfg = cfg, OF True assms(2)] assms(1)
  have d: "d = scored_decision res t cfg" by simp
  have p: "0 \<le> group_max res POSITIVE_LABELS \<and> group_max res POSITIVE_LABELS \<le> 1"
    by (rule group_max_range [OF assms(3) POSITIVE_LABELS_nonempty])
  have q: "0 \<le> group_max res PROPERTY_LABELS \<and> group_max res PROPERTY_LABELS \<le> 1"
    by (rule group_max_range [OF assms(3) PROPERTY_LABELS_nonempty])
  have "priority_score d = 0.7 * group_max res PROPERTY_LABELS
          + 0.3 * group_max res POSITIVE_LABELS + (if prop_kw_of t then 0.05 else 0)"
    by (simp add: d scored_decision_def Let_def)
  with p q show ?thesis by (simp split: if_splits)
qed

lemma prefilter_polymer_MD_Tg: "prefilter ''polymer MD Tg''"
  by (simp add: prefilter_def MD_TERMS_def FF_TERMS_def rx_eval)

lemma prop_kw_polymer_MD_Tg: "prop_kw_of ''polymer MD Tg''"
  by (simp add: prop_kw_of_def PROPERTY_TERMS_def EN_DASH_def rx_eval)

lemma scores_group_scores_range:
  "0 \<le> p \<Longrightarrow> p \<le> 1 \<Longrightarrow> 0 \<le> q \<Longrightarrow> q \<le> 1 \<Longrightarrow> 0 \<le> n \<Longrightarrow> n \<le> 1 \<Longrightarrow>
   set (scores (group_scores p q n)) \<subseteq> {0..1}"
  by (auto simp: group_scores_def)

subsection \<open>The stable descending sort\<close>

lemma mset_py_sorted_reverse: "mset (py_sorted_reverse key xs) = mset xs"
  by (simp add: py_sorted_reverse_def)

lemma py_sorted_reverse_descending:
  "sorted_wrt (\<lambda>a b. key a \<ge> key b) (py_sorted_reverse key xs)"
proof -
  have "sorted (map key (sort_key key (rev xs)))"
    by (rule sorted_sort_key)
  then have "sorted_wrt (\<lambda>a b. key a \<le> key b) (sort_key key (rev xs))"
    by (simp add: sorted_wrt_map)
  then show ?thesis
    by (simp add: py_sorted_reverse_def sorted_wrt_rev)
qed

lemma py_sorted_reverse_stable:
  "filter (\<lambda>x. key x = k) (py_sorted_reverse key xs) = filter (\<lambda>x. key x = k) xs"
proof -
  have "filter (\<lambda>x. key x = k) (py_sorted_reverse key xs)
        = rev (filter (\<lambda>x. key x = k) (sort_key key (rev xs)))"
    by (simp add: py_sorted_reverse_def rev_filter)
  also have "\<dots> = rev (filter (\<lambda>x. key x = k) (rev xs))"
    by (simp only: sort_key_stable)
  also have "\<dots> = filter (\<lambda>x. key x = k) xs"
    by (simp add: rev_filter)
  finally show ?thesis .
qed

lemma py_sorted_reverse_all_equal:
  assumes "\<forall>x \<in> set xs. key x = k"
  shows "py_sorted_reverse key xs = xs"
proof -
  have "\<forall>x \<in> set (py_sorted_reverse key xs). key x = k"
    using assms by (simp add: py_sorted_reverse_def)
  then have "py_sorted_reverse key xs = filter (\<lambda>x. key x = k) (py_sorted_reverse key xs)"
    by (simp add: filter_id_conv)
  also have "\<dots> = filter (\<lambda>x. key x = k) xs"
    by (rule py_sorted_reverse_stable)
  also from assms have "\<dots> = xs"
    by (simp add: filter_id_conv)
  finally show ?thesis .
qed

lemma sort_key_all_equal:
  assumes "\<forall>x \<in> set xs. key x = k"
  shows "sort_key key xs = xs"
proof -
  have "sort_key key xs = filter (\<lambda>x. key x = k) (sort_key key xs)"
    using assms by (simp add: filter_id_conv)
  also have "\<dots> = filter (\<lambda>x. key x = k) xs"
    by (rule sort_key_stable)
  also from assms have "\<dots> = xs"
    by (simp add: filter_id_conv)
  finally show ?thesis .
qed

lemma score_map_of_distinct:
  assumes "distinct (labels res)" and "length (scores res) = length (labels res)"
  shows "score_map_of res = zip (labels res) (scores res)"
  unfolding score_map_of_def using assms by (intro py_dict_distinct) simp

lemma top_sorted_split:
  assumes "sorted_wrt (\<lambda>a b. key a \<ge> key b) S"
  shows "\<forall>x \<in> set (take m S). \<forall>y \<in> set (drop m S). key y \<le> key x"
proof -
  from assms have "sorted_wrt (\<lambda>a b. key a \<ge> key b) (take m S @ drop m S)"
    by simp
  then show ?thesis
    unfolding sorted_wrt_append by blast
qed

lemma map_of_zip_const:
  "length xs = length ys \<Longrightarrow> l \<in> set xs \<Longrightarrow> map_of (zip xs (map (\<lambda>_. c) ys)) l = Some c"
  by (induction xs ys rule: list_induct2) auto

lemma one_score_per_label_tie: "one_score_per_label tie_scores"
  by (simp add: one_score_per_label_def tie_scores_def distinct_LABELS)

lemma score_of_tie: "l \<in> set LABELS \<Longrightarrow> score_of tie_scores l = 1"
  by (simp add: score_of_def tie_scores_def map_of_zip_const)

lemma spec_top_tie: "spec_top tie_scores = take 6 (map (\<lambda>l. (l, 1)) LABELS)"
proof -
  have e1: "map (\<lambda>l. (l, score_of tie_scores l)) LABELS = map (\<lambda>l. (l, 1::real)) LABELS"
    by (rule map_cong) (simp_all add: score_of_tie)
  have e2: "sort_key (\<lambda>x. - snd x) (map (\<lambda>l. (l, 1::real)) LABELS)
                 = map (\<lambda>l. (l, 1)) LABELS"
    by (rule sort_key_all_equal [where k = "- 1"]) auto
  show ?thesis
    by (simp only: spec_top_def e1 e2)
qed

lemma top_pairs_tie:
  "top_pairs (scored_decision tie_scores t cfg)
     = take 6 (zip (rev LABELS) (map (\<lambda>_. 1) LABELS))"
proof -
  have sm: "score_map_of tie_scores = zip (rev LABELS) (map (\<lambda>_. 1) LABELS)"
    using score_map_of_distinct [of tie_scores]
    by (simp add: tie_scores_def distinct_LABELS)
  have "py_sorted_reverse snd (zip (rev LABELS) (map (\<lambda>_. 1::real) LABELS))
        = zip (rev LABELS) (map (\<lambda>_. 1) LABELS)"
    by (rule py_sorted_reverse_all_equal [where k = "1"]) (auto dest: set_zip_rightD)
  with sm show ?thesis
    by (simp add: scored_decision_def Let_def)
qed

lemma decide_tie:
  "prefilter t \<Longrightarrow>
   decide tie_scorer t cfg = ([Single t], Inr (scored_decision tie_scores t cfg))"
  by (rule decide_scored) (simp_all add: tie_scorer_def)

subsection \<open>The loop over a batch\<close>

lemma assign_accepts_step:
  "assign_accepts idxs ((j, out) # rest) acc =
     (if j < length idxs \<and> idxs ! j < length acc
      then assign_accepts idxs rest (acc[idxs ! j := batch_accept out])
      else Inl IndexError)"
  by (simp add: batch_accept_def group_max_def score_map_of_def py_max_group Let_def
      POSITIVE_LABELS_nonempty NEGATIVE_LABELS_nonempty PROPERTY_LABELS_nonempty)

lemma assign_accepts_frame:
  "assign_accepts idxs xs acc = Inr acc' \<Longrightarrow>
   length acc' = length acc \<and> (\<forall>k. k \<notin> set idxs \<longrightarrow> acc' ! k = acc ! k)"
proof (induction xs arbitrary: acc)
  case Nil
  then show ?case by simp
next
  case (Cons x xs)
  obtain j out where x: "x = (j, out)" by (cases x)
  from Cons.prems have ok: "j < length idxs" "idxs ! j < length acc"
    and rec: "assign_accepts idxs xs (acc[idxs ! j := batch_accept out]) = Inr acc'"
    unfolding x assign_accepts_step by (auto split: if_splits simp del: assign_accepts.simps)
  from Cons.IH [OF rec] ok show ?case
    by (auto simp: nth_list_update)
qed

lemma assign_accepts_enumerate:
  assumes "\<forall>i \<in> set idxs. i < length acc"
  shows "assign_accepts idxs (enumerate m (map g (drop m idxs))) acc
         = Inr (fold (\<lambda>i a. a[i := batch_accept (g i)]) (drop m idxs) acc)"
  using assms
proof (induction "length idxs - m" arbitrary: m acc)
  case 0
  then show ?case by simp
next
  case (Suc d)
  then have m: "m < length idxs" by simp
  then have dr: "drop m idxs = idxs ! m # drop (Suc m) idxs"
    by (simp add: Cons_nth_drop_Suc)
  from m Suc.prems have lt: "idxs ! m < length acc" by simp
  from Suc.hyps(2) have d: "d = length idxs - Suc m" by simp
  have "\<forall>i \<in> set idxs. i < length (acc[idxs ! m := batch_accept (g (idxs ! m))])"
    using Suc.prems by simp
  from Suc.hyps(1) [OF d this] m lt show ?case
    by (simp add: dr assign_accepts_step del: assign_accepts.simps)
qed

lemma fold_update_nth:
  "length (fold (\<lambda>i a. a[i := h i]) is acc) = length acc
   \<and> (k < length acc \<longrightarrow>
        fold (\<lambda>i a. a[i := h i]) is acc ! k = (if k \<in> set is then h k else acc ! k))"
  by (induction "is" arbitrary: acc) (auto simp: nth_list_update)

lemma to_run_set:
  "set (map fst (filter snd (enumerate n ms))) = {i. n \<le> i \<and> i < n + length ms \<and> ms ! (i - n)}"
  by (auto simp: in_set_enumerate_eq image_iff)

lemma run_texts_filter_gen:
  "map (\<lambda>i. xs ! (i - n)) (map fst (filter snd (enumerate n (map P xs)))) = filter P xs"
proof (induction xs arbitrary: n)
  case Nil
  show ?case by simp
next
  case (Cons x xs)
  have "map (\<lambda>i. (x # xs) ! (i - n)) (map fst (filter snd (enumerate (Suc n) (map P xs))))
        = map (\<lambda>i. xs ! (i - Suc n)) (map fst (filter snd (enumerate (Suc n) (map P xs))))"
  proof (rule map_cong [OF refl])
    fix i assume "i \<in> set (map fst (filter snd (enumerate (Suc n) (map P xs))))"
    then have "Suc n \<le> i" unfolding to_run_set by simp
    then show "(x # xs) ! (i - n) = xs ! (i - Suc n)"
      by (simp add: Suc_diff_le)
  qed
  with Cons.IH [of "Suc n"] show ?case by simp
qed

lemma run_texts_filter:
  "map (\<lambda>i. xs ! i) (map fst (filter snd (enumerate 0 (map P xs)))) = filter P xs"
  using run_texts_filter_gen [of xs 0 P] by simp

lemma to_run_nonempty:
  "map fst (filter snd (enumerate 0 (map P xs))) \<noteq> [] \<longleftrightarrow> filter P xs \<noteq> []"
  using run_texts_filter [of xs P] by (metis map_is_Nil_conv)

lemma scatter_result:
  "fold (\<lambda>i a. a[i := batch_accept (score (texts ! i))])
        (map fst (filter snd (enumerate 0 (map P texts))))
        (replicate (length texts) False)
   = map (\<lambda>t. P t \<and> batch_accept (score t)) texts"
proof (rule nth_equalityI)
  show "length (fold (\<lambda>i a. a[i := batch_accept (score (texts ! i))])
        (map fst (filter snd (enumerate 0 (map P texts))))
        (replicate (length texts) False))
      = length (map (\<lambda>t. P t \<and> batch_accept (score t)) texts)"
    by (simp add: fold_update_nth)
next
  fix k
  assume "k < length (fold (\<lambda>i a. a[i := batch_accept (score (texts ! i))])
        (map fst (filter snd (enumerate 0 (map P texts))))
        (replicate (length texts) False))"
  then have k: "k < length texts"
    by (simp add: fold_update_nth)
  then have "k < length (replicate (length texts) False)" by simp
  with fold_update_nth [of "\<lambda>i. batch_accept (score (texts ! i))"
      "map fst (filter snd (enumerate 0 (map P texts)))" "replicate (length texts) False" k]
  have "fold (\<lambda>i a. a[i := batch_accept (score (texts ! i))])
        (map fst (filter snd (enumerate 0 (map P texts))))
        (replicate (length texts) False) ! k
      = (if k \<in> set (map fst (filter snd (enumerate 0 (map P texts))))
         then batch_accept (score (texts ! k)) else replicate (length texts) False ! k)"
    by blast
  moreover have "(k \<in> set (map fst (filter snd (enumerate 0 (map P texts))))) = P (texts ! k)"
    unfolding to_run_set using k by simp
  ultimately show "fold (\<lambda>i a. a[i := batch_accept (score (texts ! i))])
        (map fst (filter snd (enumerate 0 (map P texts))))
        (replicate (length texts) False) ! k
      = map (\<lambda>t. P t \<and> batch_accept (score t)) texts ! k"
    using k by (simp del: set_map set_filter)
qed

lemma emit_rows:
  "map (\<lambda>(fn, a). [CStr fn, CBool a]) (zip (map fst batch) (map f (map snd batch)))
   = map (\<lambda>item. [CStr (fst item), CBool (f (snd item))]) batch"
  by (induction batch) auto

lemma to_run_bound:
  "\<forall>i \<in> set (map fst (filter snd (enumerate 0 (map P texts)))).
      i < length (replicate (length texts) False)"
  unfolding to_run_set by simp

lemma process_batch_consistent:
  assumes "consistent_scorer clf score"
  shows "process_batch clf batch
         = (if filter prefilter (map snd batch) = [] then []
            else [Batch (filter prefilter (map snd batch))],
            Inr (map (single_row score) batch))"
proof -
  let ?texts = "map snd batch"
  let ?idxs = "map fst (filter snd (enumerate 0 (map prefilter ?texts)))"
  let ?acc0 = "replicate (length ?texts) False"
  have rt: "map (\<lambda>i. ?texts ! i) ?idxs = filter prefilter ?texts"
    by (rule run_texts_filter)
  have emp: "?idxs \<noteq> [] \<longleftrightarrow> filter prefilter ?texts \<noteq> []"
    by (rule to_run_nonempty)
  show ?thesis
  proof (cases "filter prefilter ?texts = []")
    case True
    then have none: "\<forall>item \<in> set batch. \<not> prefilter (snd item)"
      by (auto simp: filter_empty_conv)
    have "map (\<lambda>(fn, a). [CStr fn, CBool a]) (zip (map fst batch) (map (\<lambda>_. False) ?texts))
          = map (\<lambda>item. [CStr (fst item), CBool False]) batch"
      by (rule emit_rows)
    also have "\<dots> = map (single_row score) batch"
      using none by (intro map_cong refl) (simp add: single_row_def)
    finally have "map (\<lambda>(fn, a). [CStr fn, CBool a]) (zip (map fst batch) ?acc0)
          = map (single_row score) batch"
      by (simp add: map_replicate_const)
    with True emp show ?thesis
      by (simp add: process_batch_def collate_fn_def Let_def)
  next
    case False
    with assms obtain r where r: "clf (Batch (filter prefilter ?texts)) = Inr r"
      and outs: "ensure_list r = map score (filter prefilter ?texts)"
      unfolding consistent_scorer_def by blast
    have outs': "ensure_list r = map (\<lambda>i. score (?texts ! i)) (drop 0 ?idxs)"
      unfolding outs rt [symmetric] by (simp add: comp_def)
    have asg: "assign_accepts ?idxs (enumerate 0 (ensure_list r)) ?acc0
          = Inr (map (\<lambda>t. prefilter t \<and> batch_accept (score t)) ?texts)"
      unfolding outs'
      using assign_accepts_enumerate [where g = "\<lambda>i. score (?texts ! i)" and m = 0,
          OF to_run_bound [of prefilter ?texts]]
      by (simp only: drop_0 scatter_result)
    have "map (\<lambda>(fn, a). [CStr fn, CBool a])
            (zip (map fst batch) (map (\<lambda>t. prefilter t \<and> batch_accept (score t)) ?texts))
          = map (single_row score) batch"
      unfolding emit_rows by (simp add: single_row_def)
    with False emp r asg rt show ?thesis
      by (simp add: process_batch_def collate_fn_def Let_def)
  qed
qed

subsection \<open>The run\<close>

lemma emit_row_for:
  assumes "length accs = length batch"
    and "\<forall>k < length batch. \<not> prefilter (snd (batch ! k)) \<longrightarrow> accs ! k = False"
  shows "list_all2 row_for batch
           (map (\<lambda>(fn, a). [CStr fn, CBool a]) (zip (map fst batch) accs))"
  using assms by (auto simp: list_all2_conv_all_nth row_for_def)

lemma process_batch_rows:
  assumes "process_batch clf batch = (cs, Inr rs)"
  shows "list_all2 row_for batch rs"
proof -
  let ?texts = "map snd batch"
  let ?idxs = "map fst (filter snd (enumerate 0 (map prefilter ?texts)))"
  let ?acc0 = "replicate (length ?texts) False"
  have mem: "k \<in> set ?idxs \<longleftrightarrow> k < length batch \<and> prefilter (snd (batch ! k))" for k
    unfolding to_run_set by auto
  show ?thesis
  proof (cases "?idxs = []")
    case True
    with assms have "rs = map (\<lambda>(fn, a). [CStr fn, CBool a]) (zip (map fst batch) ?acc0)"
      by (simp add: process_batch_def collate_fn_def Let_def)
    then show ?thesis
      by (simp add: emit_row_for)
  next
    case False
    with assms obtain r accs where "clf (Batch (map (\<lambda>i. ?texts ! i) ?idxs)) = Inr r"
      and asg: "assign_accepts ?idxs (enumerate 0 (ensure_list r)) ?acc0 = Inr accs"
      and rs: "rs = map (\<lambda>(fn, a). [CStr fn, CBool a]) (zip (map fst batch) accs)"
      by (auto simp: process_batch_def collate_fn_def Let_def split: sum.splits)
    from assign_accepts_frame [OF asg]
    have len: "length accs = length batch"
      and keep: "\<forall>k. k \<notin> set ?idxs \<longrightarrow> accs ! k = ?acc0 ! k"
      by simp_all
    have "\<forall>k < length batch. \<not> prefilter (snd (batch ! k)) \<longrightarrow> accs ! k = False"
    proof (intro allI impI)
      fix k assume k: "k < length batch" and "\<not> prefilter (snd (batch ! k))"
      then have "k \<notin> set ?idxs" by (simp only: mem) simp
      with keep have "accs ! k = ?acc0 ! k" by blast
      with k show "accs ! k = False" by simp
    qed
    with len show ?thesis
      unfolding rs by (rule emit_row_for)
  qed
qed

lemma process_batch_scorer_fails:
  assumes "filter prefilter (map snd batch) \<noteq> []"
    and "clf (Batch (filter prefilter (map snd batch))) = Inl e"
  shows "process_batch clf batch = ([Batch (filter prefilter (map snd batch))], Inl e)"
  using assms to_run_nonempty [of prefilter "map snd batch"]
    run_texts_filter [of "map snd batch" prefilter]
  by (simp add: process_batch_def collate_fn_def Let_def)

lemma run_batches_append:
  "run_batches clf pre st = (None, st1) \<Longrightarrow>
   run_batches clf (pre @ rest) st = run_batches clf rest st1"
proof (induction pre arbitrary: st)
  case Nil
  then show ?case by simp
next
  case (Cons b pre)
  obtain cs r where pb: "process_batch clf b = (cs, r)" by (cases "process_batch clf b")
  show ?case
  proof (cases r)
    case (Inl e)
    with Cons.prems pb show ?thesis by simp
  next
    case (Inr rs)
    with Cons.prems pb Cons.IH [of "st\<lparr>rows := rows st @ rs, calls := calls st @ cs\<rparr>"]
    show ?thesis by simp
  qed
qed

lemma run_batches_rows:
  "run_batches clf bs st = (None, st') \<Longrightarrow>
   \<exists>body. rows st' = rows st @ body \<and> list_all2 row_for (concat bs) body"
proof (induction bs arbitrary: st)
  case Nil
  then show ?case by simp
next
  case (Cons b bs)
  obtain cs r where pb: "process_batch clf b = (cs, r)" by (cases "process_batch clf b")
  show ?case
  proof (cases r)
    case (Inl e)
    with Cons.prems pb show ?thesis by simp
  next
    case (Inr rs)
    with pb have b: "list_all2 row_for b rs"
      by (intro process_batch_rows [of clf b cs rs]) simp
    from Cons.prems pb Inr
    have "run_batches clf bs (st\<lparr>rows := rows st @ rs, calls := calls st @ cs\<rparr>) = (None, st')"
      by simp
    from Cons.IH [OF this] obtain body
      where "rows st' = (rows st @ rs) @ body" and "list_all2 row_for (concat bs) body"
      by auto
    with b have "rows st' = rows st @ (rs @ body) \<and> list_all2 row_for (concat (b # bs)) (rs @ body)"
      by (simp add: list_all2_appendI)
    then show ?thesis by blast
  qed
qed

lemma run_batches_consistent:
  assumes "consistent_scorer clf score"
  shows "fst (run_batches clf bs st) = None
         \<and> rows (snd (run_batches clf bs st)) = rows st @ map (single_row score) (concat bs)"
proof (induction bs arbitrary: st)
  case Nil
  show ?case by simp
next
  case (Cons b bs)
  show ?case
    using Cons.IH by (simp add: process_batch_consistent [OF assms])
qed

lemma concat_loader: "concat (loader xs) = xs"
proof (induction xs rule: loader.induct)
  case (1 items)
  show ?case
  proof (cases "items = []")
    case True
    then show ?thesis by simp
  next
    case False
    with 1 have "concat (loader (drop BATCH_SIZE items)) = drop BATCH_SIZE items" by simp
    with False show ?thesis
      by (subst loader.simps) simp
  qed
qed

lemma batch_runner_consistent:
  assumes "consistent_scorer clf score" and "files \<noteq> []"
  shows "fst (batch_runner clf files) = None
         \<and> rows (snd (batch_runner clf files))
             = [CStr ''filename'', CStr ''accept''] # map (single_row score) files"
  using assms(2) run_batches_consistent [OF assms(1), of "loader files"]
  by (simp add: batch_runner_def concat_loader del: loader.simps)

lemma batch_runner_rows:
  assumes "fst (batch_runner clf files) = None"
  shows "\<exists>body. rows (snd (batch_runner clf files)) = [CStr ''filename'', CStr ''accept''] # body
           \<and> list_all2 row_for files body"
proof -
  from assms have ne: "files \<noteq> []"
    by (auto simp: batch_runner_def)
  let ?st0 = "\<lparr>rows = [[CStr ''filename'', CStr ''accept'']], calls = []\<rparr>"
  from assms ne have "run_batches clf (loader files) ?st0
        = (None, snd (run_batches clf (loader files) ?st0))"
    by (simp add: batch_runner_def prod_eq_iff del: loader.simps)
  from run_batches_rows [OF this] ne show ?thesis
    by (simp add: batch_runner_def concat_loader del: loader.simps)
qed

lemma consistent_uniform:
  "consistent_scorer (uniform_scorer p q n) (\<lambda>t. group_scores p q n)"
  by (simp add: consistent_scorer_def uniform_scorer_def ensure_list_def)

lemma batch_accept_group_scores:
  "batch_accept (group_scores p q n) = (p \<ge> 0.70 \<and> p - n \<ge> 0.15)"
  by (simp add: batch_accept_def group_max_pos group_max_neg)

lemma prefilter_water: "\<not> prefilter ''MD of water''"
  by (rule prefilter_needs_polymer) (rule no_polymer_in_water)+

lemma decide_single_accept:
  assumes "consistent_scorer clf score"
    and "accept_threshold cfg = 0.70" and "accept_margin cfg = 0.15"
  shows "\<not> isl (snd (decide clf t cfg))
         \<and> accept (projr (snd (decide clf t cfg))) = (prefilter t \<and> batch_accept (score t))"
proof (cases "prefilter t")
  case False
  then show ?thesis by (simp add: decide_reject)
next
  case True
  from assms(1) have "clf (Single t) = Inr (One (score t))"
    by (simp add: consistent_scorer_def)
  from decide_scored [where clf = clf and cfg = cfg, OF True this] True assms(2,3)
  show ?thesis
    by (simp add: scored_decision_def Let_def batch_accept_def)
qed

lemma loader_one_batch:
  "loader [x] = [[x]]" "loader [x, y] = [[x, y]]"
  by (simp_all add: BATCH_SIZE_def)

lemma batch_runner_scorer_fails:
  assumes "loader files = pre @ b # post"
    and "run_batches clf pre \<lparr>rows = [[CStr ''filename'', CStr ''accept'']], calls = []\<rparr>
           = (None, st1)"
    and "filter prefilter (map snd b) \<noteq> []"
    and "clf (Batch (filter prefilter (map snd b))) = Inl e"
  shows "batch_runner clf files
         = (Some e, st1\<lparr>calls := calls st1 @ [Batch (filter prefilter (map snd b))]\<rparr>)"
proof -
  from assms(1) have ne: "files \<noteq> []"
    by (cases "files = []") simp_all
  have "run_batches clf (pre @ b # post) \<lparr>rows = [[CStr ''filename'', CStr ''accept'']], calls = []\<rparr>
        = run_batches clf (b # post) st1"
    using assms(2) by (rule run_batches_append)
  also have "\<dots> = (Some e, st1\<lparr>calls := calls st1 @ [Batch (filter prefilter (map snd b))]\<rparr>)"
    by (simp add: process_batch_scorer_fails [where clf = clf, OF assms(3,4)])
  finally show ?thesis
    using ne by (simp add: batch_runner_def assms(1) del: loader.simps)
qed

lemma flaky_fails:
  "bad \<in> set ts \<Longrightarrow> flaky_scorer bad (Batch ts) = Inl ScorerUnavailable"
  by (simp add: flaky_scorer_def)

section \<open>The claims\<close>

text \<open>
  C1. Batch/single-item equivalence. The claim is that the accept/priority sequence of the
  single-item calls equals that of the batch run. The loop computes and writes the accept
  flag only (the rows are \<open>[filename, accept]\<close>), with the constants 0.70 and 0.15. As
  amended: for a non-empty input, a scorer that answers every call and gives the same
  output for the same text in both call patterns, and a configuration whose accept
  threshold and margin are 0.70 and 0.15, the run ends without exception, every
  single-item call returns a Decision, and the rows after the header are, in input order,
  \<open>[filename, accept]\<close> with the \<open>accept\<close> of the single-item Decision of the item's text.
\<close>

theorem batch_accept_equals_single_accept:
  assumes "consistent_scorer clf score" and "files \<noteq> []"
    and "accept_threshold cfg = 0.70" and "accept_margin cfg = 0.15"
  shows "fst (batch_runner clf files) = None
    \<and> list_all (\<lambda>item. \<not> isl (snd (decide clf (snd item) cfg))) files
    \<and> tl (rows (snd (batch_runner clf files)))
        = map (\<lambda>item. [CStr (fst item),
                        CBool (accept (projr (snd (decide clf (snd item) cfg))))]) files"
proof -
  note single = decide_single_accept [OF assms(1,3,4)]
  from batch_runner_consistent [OF assms(1,2)]
  have run: "fst (batch_runner clf files) = None"
    and body: "tl (rows (snd (batch_runner clf files))) = map (single_row score) files"
    by simp_all
  have ok: "list_all (\<lambda>item. \<not> isl (snd (decide clf (snd item) cfg))) files"
    by (simp add: list_all_iff single)
  have "map (single_row score) files
        = map (\<lambda>item. [CStr (fst item),
                        CBool (accept (projr (snd (decide clf (snd item) cfg))))]) files"
    by (rule map_cong [OF refl]) (simp add: single_row_def single)
  with run ok body show ?thesis by simp
qed

theorem batch_accept_equals_single_accept_witness:
  "consistent_scorer (uniform_scorer 0.9 0.8 0.1) (\<lambda>t. group_scores 0.9 0.8 0.1)
   \<and> [(''a.txt'', ''polymer MD''), (''b.txt'', ''MD of water'')] \<noteq> []
   \<and> accept_threshold default_config = 0.70 \<and> accept_margin default_config = 0.15
   \<and> fst (batch_runner (uniform_scorer 0.9 0.8 0.1)
            [(''a.txt'', ''polymer MD''), (''b.txt'', ''MD of water'')]) = None
   \<and> accept (projr (snd (decide (uniform_scorer 0.9 0.8 0.1) ''polymer MD'' default_config)))
       = True
   \<and> accept (projr (snd (decide (uniform_scorer 0.9 0.8 0.1) ''MD of water'' default_config)))
       = False
   \<and> tl (rows (snd (batch_runner (uniform_scorer 0.9 0.8 0.1)
            [(''a.txt'', ''polymer MD''), (''b.txt'', ''MD of water'')])))
       = [[CStr ''a.txt'', CBool True], [CStr ''b.txt'', CBool False]]"
proof -
  have h1: "consistent_scorer (uniform_scorer 0.9 0.8 0.1) (\<lambda>t. group_scores 0.9 0.8 0.1)"
    by (rule consistent_uniform)
  have h2: "[(''a.txt'', ''polymer MD''), (''b.txt'', ''MD of water'')] \<noteq> []"
    by simp
  have h3: "accept_threshold default_config = 0.70" and h4: "accept_margin default_config = 0.15"
    by (simp_all add: default_config_def)
  have a: "accept (projr (snd (decide (uniform_scorer 0.9 0.8 0.1) ''polymer MD''
              default_config))) = True"
    by (simp add: decide_uniform [OF prefilter_polymer_MD] scored_group_fields
        default_config_def)
  have b: "accept (projr (snd (decide (uniform_scorer 0.9 0.8 0.1) ''MD of water''
              default_config))) = False"
    by (simp add: decide_reject [OF prefilter_water])
  from batch_accept_equals_single_accept [OF h1 h2 h3 h4] h1 h3 h4 a b show ?thesis
    by simp
qed

text \<open>
  The claim of C1 as stated fails: for one scored text with \<open>accept = True\<close> and
  \<open>priority = True\<close> in the single-item path, the record of the batch run is
  \<open>[a.txt, True]\<close>: after the identifier it holds the accept flag only, not the pair
  (accept, priority).
\<close>

theorem batch_priority_counterexample:
  "accept (projr (snd (decide (uniform_scorer 0.9 0.8 0.1) ''polymer MD Tg'' default_config)))
     = True
   \<and> priority (projr (snd (decide (uniform_scorer 0.9 0.8 0.1) ''polymer MD Tg''
        default_config))) = True
   \<and> batch_runner (uniform_scorer 0.9 0.8 0.1) [(''a.txt'', ''polymer MD Tg'')]
       = (None, \<lparr>rows = [[CStr ''filename'', CStr ''accept''], [CStr ''a.txt'', CBool True]],
                 calls = [Batch [''polymer MD Tg'']]\<rparr>)
   \<and> map tl (tl (rows (snd (batch_runner (uniform_scorer 0.9 0.8 0.1)
          [(''a.txt'', ''polymer MD Tg'')]))))
       \<noteq> [[CBool True, CBool True]]"
proof -
  have d: "accept (projr (snd (decide (uniform_scorer 0.9 0.8 0.1) ''polymer MD Tg''
              default_config))) = True"
    "priority (projr (snd (decide (uniform_scorer 0.9 0.8 0.1) ''polymer MD Tg''
              default_config))) = True"
    by (simp_all add: decide_uniform [OF prefilter_polymer_MD_Tg] scored_group_fields
        default_config_def prop_kw_polymer_MD_Tg)
  define clf where "clf = uniform_scorer 0.9 0.8 0.1"
  have con: "consistent_scorer clf (\<lambda>t. group_scores 0.9 0.8 0.1)"
    unfolding clf_def by (rule consistent_uniform)
  have pb: "process_batch clf [(''a.txt'', ''polymer MD Tg'')]
        = ([Batch [''polymer MD Tg'']], Inr [[CStr ''a.txt'', CBool True]])"
    by (simp add: process_batch_consistent [OF con] single_row_def
        prefilter_polymer_MD_Tg batch_accept_group_scores)
  have "batch_runner clf [(''a.txt'', ''polymer MD Tg'')]
       = (None, \<lparr>rows = [[CStr ''filename'', CStr ''accept''], [CStr ''a.txt'', CBool True]],
                 calls = [Batch [''polymer MD Tg'']]\<rparr>)"
    by (simp add: batch_runner_def loader_one_batch pb del: loader.simps)
  then have r: "batch_runner (uniform_scorer 0.9 0.8 0.1) [(''a.txt'', ''polymer MD Tg'')]
       = (None, \<lparr>rows = [[CStr ''filename'', CStr ''accept''], [CStr ''a.txt'', CBool True]],
                 calls = [Batch [''polymer MD Tg'']]\<rparr>)"
    unfolding clf_def .
  from d r show ?thesis by simp
qed

text \<open>
  C2. Decision arithmetic: for a text that passes the prefilter, a scorer answer with one
  score per label and any configuration, \<open>decide\<close> returns a Decision whose \<open>score_pos\<close>,
  \<open>score_neg\<close> and \<open>score_prop\<close> are the maxima of the scores over the Positive, Negative
  and Property labels, whose keyword boost is 0.05 exactly when the text matches a
  property-keyword pattern, whose \<open>priority_score\<close> is
  \<open>0.7 * score_prop + 0.3 * score_pos + kw_boost\<close>, and whose \<open>accept\<close> and \<open>priority\<close>
  are the two threshold-and-margin tests.
\<close>

theorem decide_arithmetic:
  assumes "prefilter text" and "clf (Single text) = Inr (One res)"
    and "one_score_per_label res"
  shows "\<exists>d. decide clf text cfg = ([Single text], Inr d)
    \<and> score_pos d = spec_max (score_of res) POSITIVE_LABELS
    \<and> score_neg d = spec_max (score_of res) NEGATIVE_LABELS
    \<and> score_prop d = spec_max (score_of res) PROPERTY_LABELS
    \<and> prop_keywords d = Some (matches_property_term text)
    \<and> priority_score d
        = 0.7 * score_prop d + 0.3 * score_pos d
          + (if matches_property_term text then 0.05 else 0.0)
    \<and> accept d = (score_pos d \<ge> accept_threshold cfg
                   \<and> score_pos d - score_neg d \<ge> accept_margin cfg)
    \<and> priority d = (priority_score d \<ge> priority_threshold cfg
                     \<and> score_prop d - score_neg d \<ge> priority_margin cfg)"
proof -
  let ?d = "scored_decision res text cfg"
  have run: "decide clf text cfg = ([Single text], Inr ?d)"
    using assms(1,2) by (rule decide_scored)
  have pos: "score_pos ?d = spec_max (score_of res) POSITIVE_LABELS"
    by (simp add: scored_decision_def Let_def group_max_spec_max [OF assms(3)] groups_in_LABELS)
  have neg: "score_neg ?d = spec_max (score_of res) NEGATIVE_LABELS"
    by (simp add: scored_decision_def Let_def group_max_spec_max [OF assms(3)] groups_in_LABELS)
  have prp: "score_prop ?d = spec_max (score_of res) PROPERTY_LABELS"
    by (simp add: scored_decision_def Let_def group_max_spec_max [OF assms(3)] groups_in_LABELS)
  have kw: "prop_keywords ?d = Some (matches_property_term text)"
    by (simp add: scored_decision_def Let_def prop_kw_of_iff)
  have ps: "priority_score ?d = 0.7 * score_prop ?d + 0.3 * score_pos ?d
              + (if matches_property_term text then 0.05 else 0.0)"
    by (simp add: scored_decision_def Let_def prop_kw_of_iff)
  have acc: "accept ?d = (score_pos ?d \<ge> accept_threshold cfg
               \<and> score_pos ?d - score_neg ?d \<ge> accept_margin cfg)"
    by (simp add: scored_decision_def Let_def)
  have pri: "priority ?d = (priority_score ?d \<ge> priority_threshold cfg
               \<and> score_prop ?d - score_neg ?d \<ge> priority_margin cfg)"
    by (simp add: scored_decision_def Let_def)
  from run pos neg prp kw ps acc pri show ?thesis by blast
qed

theorem decide_arithmetic_witness:
  "prefilter ''polymer MD''
   \<and> uniform_scorer 0.9 0.8 0.1 (Single ''polymer MD'') = Inr (One (group_scores 0.9 0.8 0.1))
   \<and> one_score_per_label (group_scores 0.9 0.8 0.1)
   \<and> (\<exists>d. decide (uniform_scorer 0.9 0.8 0.1) ''polymer MD'' default_config
            = ([Single ''polymer MD''], Inr d)
        \<and> score_pos d = spec_max (score_of (group_scores 0.9 0.8 0.1)) POSITIVE_LABELS
        \<and> score_neg d = spec_max (score_of (group_scores 0.9 0.8 0.1)) NEGATIVE_LABELS
        \<and> score_prop d = spec_max (score_of (group_scores 0.9 0.8 0.1)) PROPERTY_LABELS
        \<and> prop_keywords d = Some (matches_property_term ''polymer MD'')
        \<and> priority_score d
            = 0.7 * score_prop d + 0.3 * score_pos d
              + (if matches_property_term ''polymer MD'' then 0.05 else 0.0)
        \<and> accept d = (score_pos d \<ge> accept_threshold default_config
                       \<and> score_pos d - score_neg d \<ge> accept_margin default_config)
        \<and> priority d = (priority_score d \<ge> priority_threshold default_config
                         \<and> score_prop d - score_neg d \<ge> priority_margin default_config))"
proof -
  have h1: "prefilter ''polymer MD''"
    by (rule prefilter_polymer_MD)
  have h2: "uniform_scorer 0.9 0.8 0.1 (Single ''polymer MD'') = Inr (One (group_scores 0.9 0.8 0.1))"
    by (simp add: uniform_scorer_def)
  have h3: "one_score_per_label (group_scores 0.9 0.8 0.1)"
    by (rule one_score_per_label_group_scores)
  from decide_arithmetic [where clf = "uniform_scorer 0.9 0.8 0.1" and cfg = default_config,
      OF h1 h2 h3] h1 h2 h3 show ?thesis
    by blast
qed

text \<open>
  C3. Prefilter-reject short-circuit: for every text that the prefilter rejects, \<open>decide\<close>
  makes no scorer call and returns a Decision with \<open>accept = False\<close>, \<open>priority = False\<close>,
  the reason "fails keyword prefilter", the four scores 0.0 and an empty \<open>top\<close>. The
  returned dict has no key \<open>prop_keywords\<close> (the field is \<open>None\<close>), although the dict
  returned for a scored text has it: the Decision of a rejected text lacks that field of
  the record.
\<close>

theorem decide_reject_omits_prop_keywords:
  assumes "\<not> prefilter text"
  shows "\<exists>d. decide clf text cfg = ([], Inr d)
    \<and> accept d = False \<and> priority d = False \<and> reason d = ''fails keyword prefilter''
    \<and> score_pos d = 0 \<and> score_neg d = 0 \<and> score_prop d = 0 \<and> priority_score d = 0
    \<and> top_pairs d = [] \<and> prop_keywords d = None"
  using assms by (simp add: decide_reject)

theorem decide_reject_omits_prop_keywords_witness:
  "\<not> prefilter ''Synthesis and DSC characterization of a new polyester''
   \<and> (\<exists>d. decide (uniform_scorer 0.9 0.8 0.1)
             ''Synthesis and DSC characterization of a new polyester'' default_config
           = ([], Inr d)
        \<and> accept d = False \<and> priority d = False \<and> reason d = ''fails keyword prefilter''
        \<and> score_pos d = 0 \<and> score_neg d = 0 \<and> score_prop d = 0 \<and> priority_score d = 0
        \<and> top_pairs d = [] \<and> prop_keywords d = None)"
  using decide_reject_omits_prop_keywords [OF prefilter_polyester,
      where clf = "uniform_scorer 0.9 0.8 0.1" and cfg = default_config]
    prefilter_polyester
  by blast

text \<open>
  C4. Batch Runner output shape and order. The claim is that one (id, accept, priority)
  record is emitted per item. The loop writes \<open>[filename, accept]\<close> rows: there is no
  priority. As amended: every run that ends without exception has written the header row
  and then exactly one row per input item, in input order, each the item's identifier and
  an accept flag, which is False for every item the prefilter rejects; and with a
  consistent scorer every run on a non-empty input ends without exception.
\<close>

theorem batch_rows_shape_and_order:
  "(fst (batch_runner clf files) = None \<longrightarrow>
      (\<exists>body. rows (snd (batch_runner clf files)) = [CStr ''filename'', CStr ''accept''] # body
         \<and> list_all2 row_for files body))
   \<and> (consistent_scorer clf score \<and> files \<noteq> [] \<longrightarrow> fst (batch_runner clf files) = None)"
  using batch_runner_rows [of clf files] batch_runner_consistent [of clf score files]
  by blast

theorem batch_rows_shape_and_order_witness:
  "consistent_scorer (uniform_scorer 0.9 0.8 0.1) (\<lambda>t. group_scores 0.9 0.8 0.1)
   \<and> [(''b.txt'', ''MD of water''), (''a.txt'', ''polymer MD'')] \<noteq> []
   \<and> fst (batch_runner (uniform_scorer 0.9 0.8 0.1)
            [(''b.txt'', ''MD of water''), (''a.txt'', ''polymer MD'')]) = None
   \<and> (\<exists>body. rows (snd (batch_runner (uniform_scorer 0.9 0.8 0.1)
                  [(''b.txt'', ''MD of water''), (''a.txt'', ''polymer MD'')]))
               = [CStr ''filename'', CStr ''accept''] # body
         \<and> list_all2 row_for [(''b.txt'', ''MD of water''), (''a.txt'', ''polymer MD'')] body)"
proof -
  have h1: "consistent_scorer (uniform_scorer 0.9 0.8 0.1) (\<lambda>t. group_scores 0.9 0.8 0.1)"
    by (rule consistent_uniform)
  have h2: "[(''b.txt'', ''MD of water''), (''a.txt'', ''polymer MD'')] \<noteq> []"
    by simp
  note inst = batch_rows_shape_and_order [where clf = "uniform_scorer 0.9 0.8 0.1"
      and score = "\<lambda>t. group_scores 0.9 0.8 0.1"
      and files = "[(''b.txt'', ''MD of water''), (''a.txt'', ''polymer MD'')]"]
  from inst h1 h2
  have fin: "fst (batch_runner (uniform_scorer 0.9 0.8 0.1)
            [(''b.txt'', ''MD of water''), (''a.txt'', ''polymer MD'')]) = None"
    by (elim conjE) (erule mp, intro conjI)
  from inst fin
  have "\<exists>body. rows (snd (batch_runner (uniform_scorer 0.9 0.8 0.1)
                  [(''b.txt'', ''MD of water''), (''a.txt'', ''polymer MD'')]))
               = [CStr ''filename'', CStr ''accept''] # body
         \<and> list_all2 row_for [(''b.txt'', ''MD of water''), (''a.txt'', ''polymer MD'')] body"
    by (elim conjE) (erule mp)
  with h1 h2 fin show ?thesis
    by (intro conjI)
qed

text \<open>
  The claim of C4 as stated fails: the record written for the prefilter-rejected item
  \<open>b.txt\<close> is \<open>[b.txt, False]\<close>, not \<open>(b.txt, False, False)\<close>.
\<close>

theorem batch_record_without_priority_counterexample:
  "rows (snd (batch_runner (uniform_scorer 0.9 0.8 0.1)
           [(''a.txt'', ''polymer MD''), (''b.txt'', ''MD of water'')]))
     = [[CStr ''filename'', CStr ''accept''],
        [CStr ''a.txt'', CBool True],
        [CStr ''b.txt'', CBool False]]
   \<and> last (rows (snd (batch_runner (uniform_scorer 0.9 0.8 0.1)
           [(''a.txt'', ''polymer MD''), (''b.txt'', ''MD of water'')])))
       \<noteq> [CStr ''b.txt'', CBool False, CBool False]"
proof -
  have "rows (snd (batch_runner (uniform_scorer 0.9 0.8 0.1)
           [(''a.txt'', ''polymer MD''), (''b.txt'', ''MD of water'')]))
     = [CStr ''filename'', CStr ''accept'']
       # map (single_row (\<lambda>t. group_scores 0.9 0.8 0.1))
           [(''a.txt'', ''polymer MD''), (''b.txt'', ''MD of water'')]"
    using batch_runner_consistent [OF consistent_uniform, of
        "[(''a.txt'', ''polymer MD''), (''b.txt'', ''MD of water'')]" "0.9" "0.8" "0.1"]
    by simp
  then show ?thesis
    by (simp add: single_row_def prefilter_polymer_MD prefilter_water
        batch_accept_group_scores)
qed

text \<open>
  C5. Polymer-token necessity: a text that contains neither "polymer" nor "polymeric"
  anywhere (as a run of consecutive characters, upper and lower case not distinguished,
  which is how the code tests for the tokens) fails the prefilter, and \<open>decide\<close> returns
  \<open>accept = False\<close> and \<open>priority = False\<close> for it without any scorer call (the list of
  calls is empty).
\<close>

theorem polymer_token_necessary:
  assumes "\<not> contains_ci ''polymer'' text" and "\<not> contains_ci ''polymeric'' text"
  shows "prefilter text = False
    \<and> (\<exists>d. decide clf text cfg = ([], Inr d) \<and> accept d = False \<and> priority d = False)"
proof -
  from assms have "\<not> prefilter text"
    by (intro prefilter_needs_polymer) (simp_all add: contains_ci_iff lower_polymer)
  then show ?thesis
    by (simp add: decide_reject)
qed

theorem polymer_token_necessary_witness:
  "\<not> contains_ci ''polymer'' ''MD of water'' \<and> \<not> contains_ci ''polymeric'' ''MD of water''
   \<and> prefilter ''MD of water'' = False
   \<and> (\<exists>d. decide (uniform_scorer 1 1 0) ''MD of water'' default_config = ([], Inr d)
          \<and> accept d = False \<and> priority d = False)"
proof -
  have h1: "\<not> contains_ci ''polymer'' ''MD of water''"
    by (simp add: contains_ci_iff lower_polymer no_polymer_in_water)
  have h2: "\<not> contains_ci ''polymeric'' ''MD of water''"
    by (simp add: contains_ci_iff lower_polymer no_polymer_in_water)
  from polymer_token_necessary [OF h1 h2, where clf = "uniform_scorer 1 1 0" and cfg = default_config]
    h1 h2 show ?thesis by blast
qed

text \<open>
  C6. Top diagnostics. The claim is that ties between equal scores are broken by the label
  order of the taxonomy. The code sorts the items of the dict built from the scorer's
  answer, so ties keep the order in which the answer lists the labels. As amended: for a
  scored text and an answer with one score per label, \<open>top\<close> is the first six entries of
  the list \<open>S\<close> that is a permutation of the answer's (label, score) pairs, is descending
  by score, and keeps pairs of equal score in the order of the answer; its length is at
  most 6, and no pair outside it has a higher score than a pair in it.
\<close>

theorem top_pairs_stable_descending:
  assumes "prefilter t" and "clf (Single t) = Inr (One res)" and "one_score_per_label res"
  shows "\<exists>d S. decide clf t cfg = ([Single t], Inr d)
    \<and> top_pairs d = take 6 S \<and> length (top_pairs d) \<le> 6
    \<and> mset S = mset (zip (labels res) (scores res))
    \<and> sorted_wrt (\<lambda>a b. snd a \<ge> snd b) S
    \<and> (\<forall>x \<in> set (top_pairs d). \<forall>y \<in> set (drop 6 S). snd y \<le> snd x)
    \<and> (\<forall>k. filter (\<lambda>x. snd x = k) S
             = filter (\<lambda>x. snd x = k) (zip (labels res) (scores res)))"
proof -
  let ?items = "zip (labels res) (scores res)"
  let ?S = "py_sorted_reverse snd ?items"
  let ?d = "scored_decision res t cfg"
  from assms(3) have sm: "score_map_of res = ?items"
    by (intro score_map_of_distinct) (simp_all add: one_score_per_label_def)
  have run: "decide clf t cfg = ([Single t], Inr ?d)"
    using assms(1,2) by (rule decide_scored)
  have top: "top_pairs ?d = take 6 ?S"
    by (simp add: scored_decision_def Let_def sm)
  then have len: "length (top_pairs ?d) \<le> 6"
    by simp
  have perm: "mset ?S = mset ?items"
    by (rule mset_py_sorted_reverse)
  have desc: "sorted_wrt (\<lambda>a b. snd a \<ge> snd b) ?S"
    by (rule py_sorted_reverse_descending)
  have best: "\<forall>x \<in> set (top_pairs ?d). \<forall>y \<in> set (drop 6 ?S). snd y \<le> snd x"
    unfolding top by (rule top_sorted_split [OF desc])
  have stable: "\<forall>k. filter (\<lambda>x. snd x = k) ?S = filter (\<lambda>x. snd x = k) ?items"
    by (simp add: py_sorted_reverse_stable)
  from run top len perm desc best stable show ?thesis
    by blast
qed

theorem top_pairs_stable_descending_witness:
  "prefilter ''polymer MD''
   \<and> uniform_scorer 0.9 0.8 0.1 (Single ''polymer MD'') = Inr (One (group_scores 0.9 0.8 0.1))
   \<and> one_score_per_label (group_scores 0.9 0.8 0.1)
   \<and> (\<exists>d S. decide (uniform_scorer 0.9 0.8 0.1) ''polymer MD'' default_config
              = ([Single ''polymer MD''], Inr d)
        \<and> top_pairs d = take 6 S \<and> length (top_pairs d) \<le> 6
        \<and> mset S = mset (zip (labels (group_scores 0.9 0.8 0.1))
                               (scores (group_scores 0.9 0.8 0.1)))
        \<and> sorted_wrt (\<lambda>a b. snd a \<ge> snd b) S
        \<and> (\<forall>x \<in> set (top_pairs d). \<forall>y \<in> set (drop 6 S). snd y \<le> snd x)
        \<and> (\<forall>k. filter (\<lambda>x. snd x = k) S
                 = filter (\<lambda>x. snd x = k)
                     (zip (labels (group_scores 0.9 0.8 0.1))
                          (scores (group_scores 0.9 0.8 0.1)))))"
proof -
  have h1: "prefilter ''polymer MD''"
    by (rule prefilter_polymer_MD)
  have h2: "uniform_scorer 0.9 0.8 0.1 (Single ''polymer MD'')
              = Inr (One (group_scores 0.9 0.8 0.1))"
    by (simp add: uniform_scorer_def)
  have h3: "one_score_per_label (group_scores 0.9 0.8 0.1)"
    by (rule one_score_per_label_group_scores)
  from top_pairs_stable_descending [where clf = "uniform_scorer 0.9 0.8 0.1"
      and cfg = default_config, OF h1 h2 h3] h1 h2 h3
  show ?thesis by blast
qed


text \<open>
  The claim of C6 as stated fails: when the answer lists the labels in reverse taxonomy
  order, all with the score 1, the first entry of \<open>top\<close> is the last label of the taxonomy,
  whereas the tie-break by taxonomy order puts the first label first.
\<close>

theorem top_ties_taxonomy_order_counterexample:
  "one_score_per_label tie_scores
   \<and> tie_scorer (Single ''polymer MD'') = Inr (One tie_scores)
   \<and> hd (top_pairs (projr (snd (decide tie_scorer ''polymer MD'' default_config))))
       = (''review article (survey)'', 1)
   \<and> hd (spec_top tie_scores) = (''polymer molecular dynamics with force fields'', 1)
   \<and> top_pairs (projr (snd (decide tie_scorer ''polymer MD'' default_config)))
       \<noteq> spec_top tie_scores"
proof -
  have a: "hd (top_pairs (projr (snd (decide tie_scorer ''polymer MD'' default_config))))
       = (''review article (survey)'', 1)"
    by (simp add: decide_tie [OF prefilter_polymer_MD] top_pairs_tie label_defs)
  have b: "hd (spec_top tie_scores) = (''polymer molecular dynamics with force fields'', 1)"
    by (simp add: spec_top_tie label_defs)
  from a b have "top_pairs (projr (snd (decide tie_scorer ''polymer MD'' default_config)))
       \<noteq> spec_top tie_scores"
    by auto
  with a b one_score_per_label_tie show ?thesis
    by (simp add: tie_scorer_def)
qed

text \<open>
  C7. Monotonicity of accept in \<open>score_pos\<close>: for the same text and configuration, if two
  scorer answers give Decisions with the same \<open>score_neg\<close> and \<open>score_prop\<close> and the second
  has the larger (or equal) \<open>score_pos\<close>, then \<open>accept\<close> of the first implies \<open>accept\<close> of
  the second: raising \<open>score_pos\<close> never turns \<open>accept\<close> from True to False.
\<close>

theorem accept_monotone_in_score_pos:
  assumes "decide clf text cfg = (cs, Inr d)" and "decide clf' text cfg = (cs', Inr d')"
    and "score_neg d' = score_neg d" and "score_prop d' = score_prop d"
    and "score_pos d \<le> score_pos d'"
    and "accept d"
  shows "accept d'"
proof (cases "prefilter text")
  case False
  from decide_reject [OF False, of clf cfg] assms(1,6) show ?thesis by auto
next
  case True
  from decide_accept_rule [OF assms(1) True] assms(6)
  have "score_pos d \<ge> accept_threshold cfg" "score_pos d - score_neg d \<ge> accept_margin cfg"
    by simp_all
  with assms(3,5)
  have "score_pos d' \<ge> accept_threshold cfg \<and> score_pos d' - score_neg d' \<ge> accept_margin cfg"
    by simp
  with decide_accept_rule [OF assms(2) True] show ?thesis by simp
qed

theorem accept_monotone_in_score_pos_witness:
  "decide (uniform_scorer 0.8 0.4 0.1) ''polymer MD'' default_config
     = ([Single ''polymer MD''],
        Inr (scored_decision (group_scores 0.8 0.4 0.1) ''polymer MD'' default_config))
   \<and> decide (uniform_scorer 0.9 0.4 0.1) ''polymer MD'' default_config
     = ([Single ''polymer MD''],
        Inr (scored_decision (group_scores 0.9 0.4 0.1) ''polymer MD'' default_config))
   \<and> score_pos (scored_decision (group_scores 0.8 0.4 0.1) ''polymer MD'' default_config) = 0.8
   \<and> score_pos (scored_decision (group_scores 0.9 0.4 0.1) ''polymer MD'' default_config) = 0.9
   \<and> score_neg (scored_decision (group_scores 0.8 0.4 0.1) ''polymer MD'' default_config) = 0.1
   \<and> score_neg (scored_decision (group_scores 0.9 0.4 0.1) ''polymer MD'' default_config) = 0.1
   \<and> score_prop (scored_decision (group_scores 0.8 0.4 0.1) ''polymer MD'' default_config) = 0.4
   \<and> score_prop (scored_decision (group_scores 0.9 0.4 0.1) ''polymer MD'' default_config) = 0.4
   \<and> accept (scored_decision (group_scores 0.8 0.4 0.1) ''polymer MD'' default_config)
   \<and> accept (scored_decision (group_scores 0.9 0.4 0.1) ''polymer MD'' default_config)"
proof -
  let ?d = "scored_decision (group_scores 0.8 0.4 0.1) ''polymer MD'' default_config"
  let ?d' = "scored_decision (group_scores 0.9 0.4 0.1) ''polymer MD'' default_config"
  have r1: "decide (uniform_scorer 0.8 0.4 0.1) ''polymer MD'' default_config
              = ([Single ''polymer MD''], Inr ?d)"
    by (rule decide_uniform [OF prefilter_polymer_MD])
  have r2: "decide (uniform_scorer 0.9 0.4 0.1) ''polymer MD'' default_config
              = ([Single ''polymer MD''], Inr ?d')"
    by (rule decide_uniform [OF prefilter_polymer_MD])
  have h3: "score_neg ?d' = score_neg ?d" and h4: "score_prop ?d' = score_prop ?d"
    and h5: "score_pos ?d \<le> score_pos ?d'"
    by (simp_all add: scored_group_fields)
  have h6: "accept ?d"
    by (simp add: scored_group_fields default_config_def)
  from accept_monotone_in_score_pos [OF r1 r2 h3 h4 h5 h6] r1 r2 h6 show ?thesis
    by (simp add: scored_group_fields)
qed

text \<open>
  C8. Configuration validation. The claim is that thresholds or margins outside [0,1] are
  detected once and are fatal. The code has no validation: \<open>decide\<close> takes any four numbers
  and applies them to the item. As amended: whether \<open>decide\<close> fails does not depend on the
  configuration, and for every configuration, in range or not, a text that passes the
  prefilter and is scored gets a Decision whose \<open>accept\<close> and \<open>priority\<close> are the two tests
  with the thresholds and margins as given.
\<close>

theorem decide_no_config_validation:
  "isl (snd (decide clf t cfg)) = isl (snd (decide clf t cfg'))
   \<and> (prefilter t \<and> clf (Single t) = Inr (One res) \<longrightarrow>
        (\<exists>d. decide clf t cfg = ([Single t], Inr d)
          \<and> accept d = (score_pos d \<ge> accept_threshold cfg
                         \<and> score_pos d - score_neg d \<ge> accept_margin cfg)
          \<and> priority d = (priority_score d \<ge> priority_threshold cfg
                           \<and> score_prop d - score_neg d \<ge> priority_margin cfg)))"
proof -
  have "isl (snd (decide clf t cfg)) = isl (snd (decide clf t cfg'))"
    by (simp add: decide_isl)
  moreover have "\<exists>d. decide clf t cfg = ([Single t], Inr d)
          \<and> accept d = (score_pos d \<ge> accept_threshold cfg
                         \<and> score_pos d - score_neg d \<ge> accept_margin cfg)
          \<and> priority d = (priority_score d \<ge> priority_threshold cfg
                           \<and> score_prop d - score_neg d \<ge> priority_margin cfg)"
    if "prefilter t" "clf (Single t) = Inr (One res)"
    using decide_scored [where clf = clf and cfg = cfg, OF that]
    by (simp add: scored_decision_def Let_def)
  ultimately show ?thesis by blast
qed

theorem decide_no_config_validation_witness:
  "prefilter ''polymer MD''
   \<and> uniform_scorer 0.9 0.8 0.1 (Single ''polymer MD'') = Inr (One (group_scores 0.9 0.8 0.1))
   \<and> (\<exists>d. decide (uniform_scorer 0.9 0.8 0.1) ''polymer MD''
             \<lparr>accept_threshold = 1.5, accept_margin = 7, priority_threshold = -2,
              priority_margin = 0.10\<rparr> = ([Single ''polymer MD''], Inr d)
          \<and> accept d = (score_pos d \<ge> 1.5 \<and> score_pos d - score_neg d \<ge> 7)
          \<and> priority d = (priority_score d \<ge> -2 \<and> score_prop d - score_neg d \<ge> 0.10))"
proof -
  have h1: "prefilter ''polymer MD''"
    by (rule prefilter_polymer_MD)
  have h2: "uniform_scorer 0.9 0.8 0.1 (Single ''polymer MD'')
              = Inr (One (group_scores 0.9 0.8 0.1))"
    by (simp add: uniform_scorer_def)
  from decide_no_config_validation [where clf = "uniform_scorer 0.9 0.8 0.1"
      and t = "''polymer MD''" and res = "group_scores 0.9 0.8 0.1"
      and cfg = "\<lparr>accept_threshold = 1.5, accept_margin = 7, priority_threshold = -2,
              priority_margin = 0.10\<rparr>"] h1 h2
  show ?thesis by simp
qed

text \<open>
  The claim of C8 as stated fails: with \<open>accept_threshold = 1.5\<close> and
  \<open>priority_threshold = -2\<close>, both outside [0,1], \<open>decide\<close> does not fail; it returns a
  Decision with \<open>accept = False\<close> and \<open>priority = True\<close>.
\<close>

theorem decide_out_of_range_config_counterexample:
  "\<not> isl (snd (decide (uniform_scorer 0.9 0.8 0.1) ''polymer MD''
        \<lparr>accept_threshold = 1.5, accept_margin = 0.15,
         priority_threshold = -2, priority_margin = 0.10\<rparr>))
   \<and> accept (projr (snd (decide (uniform_scorer 0.9 0.8 0.1) ''polymer MD''
        \<lparr>accept_threshold = 1.5, accept_margin = 0.15,
         priority_threshold = -2, priority_margin = 0.10\<rparr>))) = False
   \<and> priority (projr (snd (decide (uniform_scorer 0.9 0.8 0.1) ''polymer MD''
        \<lparr>accept_threshold = 1.5, accept_margin = 0.15,
         priority_threshold = -2, priority_margin = 0.10\<rparr>))) = True"
  by (simp add: decide_uniform [OF prefilter_polymer_MD] scored_group_fields)

text \<open>
  C9. Scorer failure in a batch run. The claim is that a failure is isolated to the
  affected items and the run goes on. The loop has no exception handling: the batched
  scorer call is one call, and its exception ends the whole run. As amended: if the scorer
  raises on the batched call of a batch, the run ends with that exception (a failure, not
  an accept flag), and the CSV file holds the header and the rows of the batches before
  that batch only: no row is written for any item of the failing batch or of a later one.
\<close>

theorem scorer_failure_aborts_run:
  assumes "loader files = pre @ b # post"
    and "run_batches clf pre \<lparr>rows = [[CStr ''filename'', CStr ''accept'']], calls = []\<rparr>
           = (None, st1)"
    and "filter prefilter (map snd b) \<noteq> []"
    and "clf (Batch (filter prefilter (map snd b))) = Inl e"
  shows "fst (batch_runner clf files) = Some e
    \<and> rows (snd (batch_runner clf files)) = rows st1
    \<and> (\<exists>body. rows st1 = [CStr ''filename'', CStr ''accept''] # body
          \<and> list_all2 row_for (concat pre) body)"
proof -
  from batch_runner_scorer_fails [where clf = clf, OF assms]
  have "fst (batch_runner clf files) = Some e" "rows (snd (batch_runner clf files)) = rows st1"
    by simp_all
  moreover from run_batches_rows [OF assms(2)]
  have "\<exists>body. rows st1 = [CStr ''filename'', CStr ''accept''] # body
          \<and> list_all2 row_for (concat pre) body"
    by simp
  ultimately show ?thesis by blast
qed

theorem scorer_failure_aborts_run_witness:
  "loader [(''b.txt'', ''polymer MD Tg'')] = [] @ [(''b.txt'', ''polymer MD Tg'')] # []
   \<and> run_batches (flaky_scorer ''polymer MD Tg'') []
        \<lparr>rows = [[CStr ''filename'', CStr ''accept'']], calls = []\<rparr>
       = (None, \<lparr>rows = [[CStr ''filename'', CStr ''accept'']], calls = []\<rparr>)
   \<and> filter prefilter (map snd [(''b.txt'', ''polymer MD Tg'')]) \<noteq> []
   \<and> flaky_scorer ''polymer MD Tg''
        (Batch (filter prefilter (map snd [(''b.txt'', ''polymer MD Tg'')])))
       = Inl ScorerUnavailable
   \<and> fst (batch_runner (flaky_scorer ''polymer MD Tg'') [(''b.txt'', ''polymer MD Tg'')])
       = Some ScorerUnavailable
   \<and> rows (snd (batch_runner (flaky_scorer ''polymer MD Tg'') [(''b.txt'', ''polymer MD Tg'')]))
       = [[CStr ''filename'', CStr ''accept'']]"
proof -
  have h1: "loader [(''b.txt'', ''polymer MD Tg'')] = [] @ [(''b.txt'', ''polymer MD Tg'')] # []"
    by (simp add: loader_one_batch del: loader.simps)
  have h2: "run_batches (flaky_scorer ''polymer MD Tg'') []
        \<lparr>rows = [[CStr ''filename'', CStr ''accept'']], calls = []\<rparr>
       = (None, \<lparr>rows = [[CStr ''filename'', CStr ''accept'']], calls = []\<rparr>)"
    by simp
  have h3: "filter prefilter (map snd [(''b.txt'', ''polymer MD Tg'')]) \<noteq> []"
    by (simp add: prefilter_polymer_MD_Tg)
  have h4: "flaky_scorer ''polymer MD Tg''
        (Batch (filter prefilter (map snd [(''b.txt'', ''polymer MD Tg'')])))
       = Inl ScorerUnavailable"
    by (simp add: prefilter_polymer_MD_Tg flaky_fails)
  from scorer_failure_aborts_run [OF h1 h2 h3 h4] h1 h2 h3 h4 show ?thesis
    by simp
qed

text \<open>
  The claim of C9 as stated fails: the scorer fails on the text of \<open>b.txt\<close> only and can
  score the text of \<open>a.txt\<close>, alone or in a batch; yet the run over both items ends with
  the exception after one scorer call and has written the header row only: no row for
  \<open>a.txt\<close>.
\<close>

theorem scorer_failure_not_isolated_counterexample:
  "flaky_scorer ''polymer MD Tg'' (Single ''polymer MD'') = Inr (One (group_scores 0.9 0.8 0.1))
   \<and> flaky_scorer ''polymer MD Tg'' (Batch [''polymer MD''])
       = Inr (Many [group_scores 0.9 0.8 0.1])
   \<and> batch_runner (flaky_scorer ''polymer MD Tg'')
        [(''a.txt'', ''polymer MD''), (''b.txt'', ''polymer MD Tg'')]
       = (Some ScorerUnavailable,
          \<lparr>rows = [[CStr ''filename'', CStr ''accept'']],
           calls = [Batch [''polymer MD'', ''polymer MD Tg'']]\<rparr>)"
proof -
  define clf where "clf = flaky_scorer ''polymer MD Tg''"
  let ?b = "[(''a.txt'', ''polymer MD''), (''b.txt'', ''polymer MD Tg'')]"
  have f: "filter prefilter (map snd ?b) = [''polymer MD'', ''polymer MD Tg'']"
    by (simp add: prefilter_polymer_MD prefilter_polymer_MD_Tg)
  have e: "clf (Batch (filter prefilter (map snd ?b))) = Inl ScorerUnavailable"
    unfolding f clf_def by (rule flaky_fails) simp
  have h1: "loader ?b = [] @ ?b # []"
    by (simp add: loader_one_batch del: loader.simps)
  have h2: "run_batches clf [] \<lparr>rows = [[CStr ''filename'', CStr ''accept'']], calls = []\<rparr>
       = (None, \<lparr>rows = [[CStr ''filename'', CStr ''accept'']], calls = []\<rparr>)"
    by simp
  have h3: "filter prefilter (map snd ?b) \<noteq> []"
    unfolding f by simp
  have "batch_runner clf ?b
       = (Some ScorerUnavailable,
          \<lparr>rows = [[CStr ''filename'', CStr ''accept'']],
           calls = [Batch [''polymer MD'', ''polymer MD Tg'']]\<rparr>)"
    using batch_runner_scorer_fails [where clf = clf, OF h1 h2 h3 e, unfolded f] by simp
  then show ?thesis
    unfolding clf_def by (simp add: flaky_scorer_def)
qed

text \<open>
  C10. Range of \<open>priority_score\<close>: whenever every score of the scorer's answer lies in
  [0,1], the \<open>priority_score\<close> of the Decision lies in [0, 1.05]; and there is such an answer,
  for a text with property keywords, whose \<open>priority_score\<close> exceeds 1.
\<close>

theorem priority_score_range:
  "(\<forall>clf t cfg cs d res.
       decide clf t cfg = (cs, Inr d) \<and> clf (Single t) = Inr (One res)
       \<and> set (scores res) \<subseteq> {0..1}
       \<longrightarrow> 0 \<le> priority_score d \<and> priority_score d \<le> 1.05)
   \<and> (\<exists>clf t cfg cs d res.
       decide clf t cfg = (cs, Inr d) \<and> clf (Single t) = Inr (One res)
       \<and> set (scores res) \<subseteq> {0..1} \<and> prop_keywords d = Some True
       \<and> 1 < priority_score d)"
proof (intro conjI allI impI)
  fix clf t cfg cs d res
  assume "decide clf t cfg = (cs, Inr d) \<and> clf (Single t) = Inr (One res)
       \<and> set (scores res) \<subseteq> {0..1}"
  then show "0 \<le> priority_score d" "priority_score d \<le> 1.05"
    using priority_score_bounds [of clf t cfg cs d res] by simp_all
next
  let ?d = "scored_decision (group_scores 1 1 0) ''polymer MD Tg'' default_config"
  have "decide (uniform_scorer 1 1 0) ''polymer MD Tg'' default_config
          = ([Single ''polymer MD Tg''], Inr ?d)"
    by (rule decide_uniform [OF prefilter_polymer_MD_Tg])
  moreover have "uniform_scorer 1 1 0 (Single ''polymer MD Tg'') = Inr (One (group_scores 1 1 0))"
    by (simp add: uniform_scorer_def)
  moreover have "set (scores (group_scores 1 1 0)) \<subseteq> {0..1}"
    by (rule scores_group_scores_range) simp_all
  moreover have "prop_keywords ?d = Some True" "1 < priority_score ?d"
    by (simp_all add: scored_group_fields prop_kw_polymer_MD_Tg)
  ultimately show "\<exists>clf t cfg cs d res.
       decide clf t cfg = (cs, Inr d) \<and> clf (Single t) = Inr (One res)
       \<and> set (scores res) \<subseteq> {0..1} \<and> prop_keywords d = Some True
       \<and> 1 < priority_score d"
    by blast
qed

theorem priority_score_range_witness:
  "decide (uniform_scorer 1 1 0) ''polymer MD Tg'' default_config
     = ([Single ''polymer MD Tg''],
        Inr (scored_decision (group_scores 1 1 0) ''polymer MD Tg'' default_config))
   \<and> uniform_scorer 1 1 0 (Single ''polymer MD Tg'') = Inr (One (group_scores 1 1 0))
   \<and> set (scores (group_scores 1 1 0)) \<subseteq> {0..1}
   \<and> priority_score (scored_decision (group_scores 1 1 0) ''polymer MD Tg'' default_config)
       = 1.05
   \<and> 0 \<le> priority_score (scored_decision (group_scores 1 1 0) ''polymer MD Tg'' default_config)
   \<and> priority_score (scored_decision (group_scores 1 1 0) ''polymer MD Tg'' default_config)
       \<le> 1.05"
proof -
  let ?d = "scored_decision (group_scores 1 1 0) ''polymer MD Tg'' default_config"
  have h1: "decide (uniform_scorer 1 1 0) ''polymer MD Tg'' default_config
          = ([Single ''polymer MD Tg''], Inr ?d)"
    by (rule decide_uniform [OF prefilter_polymer_MD_Tg])
  have h2: "uniform_scorer 1 1 0 (Single ''polymer MD Tg'') = Inr (One (group_scores 1 1 0))"
    by (simp add: uniform_scorer_def)
  have h3: "set (scores (group_scores 1 1 0)) \<subseteq> {0..1}"
    by (rule scores_group_scores_range) simp_all
  have v: "priority_score ?d = 1.05"
    by (simp add: scored_group_fields prop_kw_polymer_MD_Tg)
  from priority_score_range have "0 \<le> priority_score ?d \<and> priority_score ?d \<le> 1.05"
    using h1 h2 h3 by blast
  with h1 h2 h3 v show ?thesis by blast
qed

end
